theory Spec2Isabelle
  imports Main
begin

section \<open>The dataset of \<^verbatim>\<open>createGraph\<close> and its transform into nodes and edges\<close>

text \<open>
  \<^verbatim>\<open>examples/simple_graph/simple_graph.js\<close> hard-codes a JSON object \<^verbatim>\<open>bucket\<close>
  with a list of tracks and a list of tags. A track has a numeric \<^verbatim>\<open>trackId\<close>, an
  optional array \<^verbatim>\<open>tags\<close> and an optional \<^verbatim>\<open>note\<close>; a property that is absent reads
  as \<^verbatim>\<open>undefined\<close> in JavaScript and is \<open>None\<close> here.
\<close>

record track =
  trackId :: int
  tags :: "string list option"
  track_note :: "string option"

record bucket_t =
  tracks :: "track list"
  bucket_tags :: "string list"

text \<open>The object literals pushed onto \<^verbatim>\<open>trackNodes\<close>, \<^verbatim>\<open>tagNodes\<close> and \<^verbatim>\<open>edges\<close>.\<close>

record node =
  node_id :: string
  node_label :: string
  node_group :: string

record edge =
  edge_from :: string
  edge_to :: string

text \<open>
  A template literal converts a number with \<^verbatim>\<open>Number::toString\<close>. For an integer of
  magnitude below \<open>10\<^sup>2\<^sup>1\<close> that is its decimal numeral without leading zeros, after
  a minus sign when it is negative. The track ids of the dataset are such integers.
\<close>

definition digit_char :: "int \<Rightarrow> char" where
  "digit_char d = ''0123456789'' ! nat (d mod 10)"

function digits :: "int \<Rightarrow> string" where
  "digits n =
     (if n < 10 then [digit_char n]
      else digits (n div 10) @ [digit_char (n mod 10)])"
  by pat_completeness auto
termination
  by (relation "measure nat") auto

declare digits.simps [simp del]

definition number_to_string :: "int \<Rightarrow> string" where
  "number_to_string n = (if n < 0 then ''-'' @ digits (- n) else digits n)"

text \<open>The value of a decimal digit, used to show that distinct numbers print differently.\<close>

definition digit_val :: "char \<Rightarrow> int" where
  "digit_val c = int (of_char c) - 48"

text \<open>
  The body of \<^verbatim>\<open>tags.forEach\<close> (lines 171 to 176): one edge pushed per element, from
  the current \<^verbatim>\<open>trackNodeId\<close>.
\<close>

definition push_edge :: "string \<Rightarrow> edge list \<Rightarrow> string \<Rightarrow> edge list" where
  "push_edge trackNodeId es tag = es @ [\<lparr>edge_from = trackNodeId, edge_to = ''C'' @ tag\<rparr>]"

text \<open>
  The body of \<^verbatim>\<open>bucket.tracks.forEach\<close> (lines 163 to 178) on the pair of arrays
  \<^verbatim>\<open>(trackNodes, edges)\<close>; the guard \<^verbatim>\<open>tags && tags.length\<close> is false for \<^verbatim>\<open>undefined\<close>
  and for an array of length zero. The variable \<^verbatim>\<open>trackNodeId\<close> is assigned before each use,
  so it is a local binding here.
\<close>

definition track_step :: "node list \<times> edge list \<Rightarrow> track \<Rightarrow> node list \<times> edge list" where
  "track_step acc t =
     (case acc of (trackNodes, edges) \<Rightarrow>
        (case tags t of
           None \<Rightarrow> (trackNodes, edges)
         | Some ts \<Rightarrow>
             if length ts \<noteq> 0 then
               (let trackNodeId = ''T'' @ number_to_string (trackId t)
                in (trackNodes @
                      [\<lparr>node_id = trackNodeId, node_label = [], node_group = ''tracks''\<rparr>],
                    foldl (push_edge trackNodeId) edges ts))
             else (trackNodes, edges)))"

text \<open>
  The three arrays built by lines 160 to 186: \<^verbatim>\<open>trackNodes\<close> and \<^verbatim>\<open>edges\<close> from the
  loop over the tracks, \<^verbatim>\<open>tagNodes\<close> from \<^verbatim>\<open>bucket.tags.map\<close>, and their concatenation
  \<^verbatim>\<open>nodes\<close>.
\<close>

definition tracks_forEach :: "bucket_t \<Rightarrow> node list \<times> edge list" where
  "tracks_forEach b = foldl track_step ([], []) (tracks b)"

definition trackNodes :: "bucket_t \<Rightarrow> node list" where
  "trackNodes b = fst (tracks_forEach b)"

definition edges :: "bucket_t \<Rightarrow> edge list" where
  "edges b = snd (tracks_forEach b)"

definition tagNodes :: "bucket_t \<Rightarrow> node list" where
  "tagNodes b =
     map (\<lambda>tag. \<lparr>node_id = ''C'' @ tag, node_label = tag, node_group = ''tags''\<rparr>)
       (bucket_tags b)"

definition nodes :: "bucket_t \<Rightarrow> node list" where
  "nodes b = trackNodes b @ tagNodes b"

text \<open>
  What one track contributes to \<^verbatim>\<open>trackNodes\<close> and to \<^verbatim>\<open>edges\<close>; the loop is shown below to
  append these, track by track.
\<close>

definition tag_list :: "track \<Rightarrow> string list" where
  "tag_list t = (case tags t of None \<Rightarrow> [] | Some ts \<Rightarrow> ts)"

definition track_node_id :: "track \<Rightarrow> string" where
  "track_node_id t = ''T'' @ number_to_string (trackId t)"

definition nodes_of_track :: "track \<Rightarrow> node list" where
  "nodes_of_track t =
     (if tag_list t = [] then []
      else [\<lparr>node_id = track_node_id t, node_label = [], node_group = ''tracks''\<rparr>])"

definition edges_of_track :: "track \<Rightarrow> edge list" where
  "edges_of_track t =
     map (\<lambda>tag. \<lparr>edge_from = track_node_id t, edge_to = ''C'' @ tag\<rparr>) (tag_list t)"

definition tag_node :: "string \<Rightarrow> node" where
  "tag_node tag = \<lparr>node_id = ''C'' @ tag, node_label = tag, node_group = ''tags''\<rparr>"

text \<open>The literal of line 159.\<close>

definition bucket :: bucket_t where
  "bucket = \<lparr>tracks = [
     \<lparr>trackId = 480700689, tags = None, track_note = None\<rparr>,
     \<lparr>trackId = 359978594, tags = None, track_note = None\<rparr>,
     \<lparr>trackId = 356671463, tags = None, track_note = None\<rparr>,
     \<lparr>trackId = 356272697, tags = None, track_note = None\<rparr>,
     \<lparr>trackId = 344049175, tags = Some [''electronic'', ''ambient'', ''experimental'', ''hiphopbeat''], track_note = None\<rparr>,
     \<lparr>trackId = 185501964, tags = Some [''electronic'', ''ambient'', ''chill''], track_note = None\<rparr>,
     \<lparr>trackId = 340786932, tags = None, track_note = None\<rparr>,
     \<lparr>trackId = 340014346, tags = Some [''electronic'', ''rap'', ''experimental''], track_note = None\<rparr>,
     \<lparr>trackId = 340864271, tags = None, track_note = None\<rparr>,
     \<lparr>trackId = 338882196, tags = None, track_note = None\<rparr>,
     \<lparr>trackId = 340850433, tags = None, track_note = None\<rparr>,
     \<lparr>trackId = 340858419, tags = None, track_note = None\<rparr>,
     \<lparr>trackId = 339810494, tags = None, track_note = None\<rparr>,
     \<lparr>trackId = 340187504, tags = Some [''funky'', ''future''], track_note = None\<rparr>,
     \<lparr>trackId = 340158750, tags = Some [''electronic''], track_note = None\<rparr>,
     \<lparr>trackId = 340004927, tags = None, track_note = None\<rparr>,
     \<lparr>trackId = 337445405, tags = None, track_note = None\<rparr>,
     \<lparr>trackId = 340028180, tags = None, track_note = None\<rparr>,
     \<lparr>trackId = 339848591, tags = None, track_note = None\<rparr>,
     \<lparr>trackId = 339804837, tags = Some [''rap'', ''electronic''], track_note = None\<rparr>,
     \<lparr>trackId = 339452530, tags = None, track_note = None\<rparr>,
     \<lparr>trackId = 339712633, tags = Some [''electronic'', ''house'', ''future''], track_note = None\<rparr>,
     \<lparr>trackId = 337440468, tags = Some [''electronic'', ''remix''], track_note = None\<rparr>,
     \<lparr>trackId = 343562073, tags = None, track_note = None\<rparr>,
     \<lparr>trackId = 337864490, tags = Some [''electronic''], track_note = None\<rparr>,
     \<lparr>trackId = 320515013, tags = Some [''experimental'', ''electronic'', ''chill''], track_note = None\<rparr>,
     \<lparr>trackId = 307741754, tags = Some [''ambient'', ''electronic''], track_note = None\<rparr>,
     \<lparr>trackId = 310703664, tags = Some [''electronic'', ''future''], track_note = None\<rparr>,
     \<lparr>trackId = 305079285, tags = Some [''experimental''], track_note = None\<rparr>,
     \<lparr>trackId = 303601544, tags = None, track_note = None\<rparr>,
     \<lparr>trackId = 303504889, tags = Some [''funky'', ''chill''], track_note = None\<rparr>,
     \<lparr>trackId = 300196390, tags = Some [''ambient'', ''electronic''], track_note = None\<rparr>,
     \<lparr>trackId = 220929372, tags = Some [''electronic'', ''trap''], track_note = Some ''hype but chill''\<rparr>,
     \<lparr>trackId = 211483614, tags = Some [''ambient'', ''electronic''], track_note = None\<rparr>,
     \<lparr>trackId = 291958088, tags = Some [''electronic'', ''ambient'', ''experimental'', ''chill''], track_note = None\<rparr>,
     \<lparr>trackId = 257091221, tags = Some [''electronic'', ''ambient'', ''chill''], track_note = Some ''has a nice, heavy beat''\<rparr>,
     \<lparr>trackId = 297755853, tags = Some [''experimental'', ''electronic'', ''chill'', ''funky''], track_note = None\<rparr>,
     \<lparr>trackId = 296685652, tags = Some [''electronic'', ''rap''], track_note = None\<rparr>,
     \<lparr>trackId = 214698107, tags = None, track_note = None\<rparr>,
     \<lparr>trackId = 270011377, tags = Some [''electronic'', ''experimental'', ''chill''], track_note = None\<rparr>,
     \<lparr>trackId = 292125528, tags = Some [''electronic'', ''ambient'', ''chill''], track_note = None\<rparr>,
     \<lparr>trackId = 299510194, tags = Some [''electronic'', ''experimental'', ''remix''], track_note = None\<rparr>,
     \<lparr>trackId = 298434286, tags = Some [''electronic'', ''funky'', ''remix''], track_note = None\<rparr>,
     \<lparr>trackId = 264628389, tags = Some [''ambient'', ''chill''], track_note = None\<rparr>,
     \<lparr>trackId = 297297656, tags = None, track_note = None\<rparr>,
     \<lparr>trackId = 296502414, tags = Some [''ambient'', ''electronic'', ''chill''], track_note = None\<rparr>,
     \<lparr>trackId = 297156837, tags = Some [''electronic'', ''ambient'', ''experimental''], track_note = None\<rparr>,
     \<lparr>trackId = 297455260, tags = None, track_note = None\<rparr>,
     \<lparr>trackId = 292618548, tags = Some [''electronic'', ''chill''], track_note = None\<rparr>,
     \<lparr>trackId = 295592367, tags = Some [''electronic'', ''future'', ''trap''], track_note = None\<rparr>,
     \<lparr>trackId = 296087000, tags = Some [''electronic''], track_note = None\<rparr>,
     \<lparr>trackId = 295165549, tags = Some [''electronic'', ''funky'', ''deep''], track_note = None\<rparr>,
     \<lparr>trackId = 295165352, tags = Some [''electronic'', ''chill''], track_note = None\<rparr>,
     \<lparr>trackId = 294489171, tags = Some [''electronic'', ''experimental'', ''trap''], track_note = None\<rparr>,
     \<lparr>trackId = 295161513, tags = Some [''electronic'', ''future'', ''chill''], track_note = None\<rparr>,
     \<lparr>trackId = 227042825, tags = Some [''electronic'', ''ambient'', ''chill''], track_note = None\<rparr>,
     \<lparr>trackId = 246195391, tags = Some [''electronic''], track_note = None\<rparr>,
     \<lparr>trackId = 274569356, tags = Some [''remix''], track_note = None\<rparr>,
     \<lparr>trackId = 281670564, tags = Some [''remix'', ''electronic''], track_note = None\<rparr>,
     \<lparr>trackId = 281024707, tags = Some [''electronic'', ''deep'', ''house'', ''remix''], track_note = None\<rparr>,
     \<lparr>trackId = 294901395, tags = Some [''chill'', ''electronic''], track_note = None\<rparr>,
     \<lparr>trackId = 294279693, tags = Some [''electronic'', ''experimental'', ''remix''], track_note = None\<rparr>,
     \<lparr>trackId = 284887739, tags = Some [''electronic'', ''ambient'', ''future'', ''chill'', ''experimental'', ''remix''], track_note = None\<rparr>,
     \<lparr>trackId = 294231299, tags = Some [''electronic'', ''experimental''], track_note = None\<rparr>,
     \<lparr>trackId = 293351192, tags = None, track_note = None\<rparr>,
     \<lparr>trackId = 293196567, tags = Some [''electronic'', ''trap''], track_note = None\<rparr>,
     \<lparr>trackId = 294164740, tags = Some [''electronic'', ''ambient'', ''cover''], track_note = None\<rparr>,
     \<lparr>trackId = 294164678, tags = Some [''electronic'', ''funky'', ''experimental''], track_note = None\<rparr>,
     \<lparr>trackId = 188441762, tags = Some [''electronic'', ''experimental'', ''ambient''], track_note = None\<rparr>,
     \<lparr>trackId = 293659186, tags = Some [''electronic'', ''ambient''], track_note = None\<rparr>,
     \<lparr>trackId = 293969465, tags = Some [''electronic'', ''chill''], track_note = None\<rparr>,
     \<lparr>trackId = 293585764, tags = Some [''electronic'', ''experimental'', ''chill''], track_note = None\<rparr>,
     \<lparr>trackId = 267315572, tags = None, track_note = None\<rparr>,
     \<lparr>trackId = 285435997, tags = Some [''electronic'', ''chill''], track_note = None\<rparr>,
     \<lparr>trackId = 228024161, tags = Some [''remix'', ''electronic'', ''chill''], track_note = None\<rparr>,
     \<lparr>trackId = 283523608, tags = Some [''electronic'', ''future'', ''funky''], track_note = None\<rparr>,
     \<lparr>trackId = 285853076, tags = Some [''electronic'', ''future'', ''chill''], track_note = None\<rparr>,
     \<lparr>trackId = 285709322, tags = Some [''electronic'', ''remix'', ''experimental''], track_note = None\<rparr>,
     \<lparr>trackId = 284266335, tags = Some [], track_note = None\<rparr>,
     \<lparr>trackId = 283814781, tags = Some [''electronic'', ''ambient'', ''chill''], track_note = None\<rparr>,
     \<lparr>trackId = 245940906, tags = Some [''ambient'', ''electronic''], track_note = None\<rparr>,
     \<lparr>trackId = 283852262, tags = None, track_note = None\<rparr>,
     \<lparr>trackId = 266399001, tags = None, track_note = None\<rparr>,
     \<lparr>trackId = 283052283, tags = None, track_note = None\<rparr>,
     \<lparr>trackId = 283083300, tags = None, track_note = None\<rparr>,
     \<lparr>trackId = 248426231, tags = None, track_note = None\<rparr>,
     \<lparr>trackId = 282734118, tags = None, track_note = None\<rparr>,
     \<lparr>trackId = 281672945, tags = None, track_note = None\<rparr>,
     \<lparr>trackId = 271291165, tags = None, track_note = None\<rparr>,
     \<lparr>trackId = 281674269, tags = None, track_note = None\<rparr>,
     \<lparr>trackId = 278404934, tags = None, track_note = None\<rparr>,
     \<lparr>trackId = 278366594, tags = None, track_note = None\<rparr>,
     \<lparr>trackId = 271409580, tags = None, track_note = None\<rparr>,
     \<lparr>trackId = 271256313, tags = None, track_note = None\<rparr>],
   bucket_tags = [''electronic'', ''ambient'', ''experimental'', ''future'', ''funky'', ''trap'', ''chill'', ''rap'', ''deep'', ''remix'', ''house'', ''cover'', ''hiphopbeat'']\<rparr>"


section \<open>The constructor \<^verbatim>\<open>Drawing.SimpleGraph\<close>\<close>

text \<open>
  The \<^verbatim>\<open>options\<close> argument; every property may be absent. Numbers are integers here.
\<close>

record layout_opts =
  lo_width :: "int option"
  lo_height :: "int option"
  lo_iterations :: "int option"
  lo_layout :: "string option"

record options =
  opt_layout :: "string option"
  opt_graphLayout :: "layout_opts option"
  opt_showStats :: "bool option"
  opt_showInfo :: "bool option"
  opt_showLabels :: "bool option"
  opt_selection :: "bool option"
  opt_limit :: "int option"
  opt_numNodes :: "int option"
  opt_numEdges :: "int option"

text \<open>
  \<^verbatim>\<open>x || d\<close> is \<^verbatim>\<open>d\<close> when \<^verbatim>\<open>x\<close> is falsy: \<^verbatim>\<open>undefined\<close>, \<^verbatim>\<open>false\<close>, the number zero or
  the empty string.
\<close>

definition or_bool :: "bool option \<Rightarrow> bool \<Rightarrow> bool" where
  "or_bool x d = (case x of None \<Rightarrow> d | Some v \<Rightarrow> if v then v else d)"

definition or_number :: "int option \<Rightarrow> int \<Rightarrow> int" where
  "or_number x d = (case x of None \<Rightarrow> d | Some v \<Rightarrow> if v = 0 then d else v)"

definition or_string :: "string option \<Rightarrow> string \<Rightarrow> string" where
  "or_string x d = (case x of None \<Rightarrow> d | Some v \<Rightarrow> if v = [] then d else v)"

definition no_layout_opts :: layout_opts where
  "no_layout_opts = \<lparr>lo_width = None, lo_height = None, lo_iterations = None, lo_layout = None\<rparr>"

definition no_options :: options where
  "no_options =
     \<lparr>opt_layout = None, opt_graphLayout = None, opt_showStats = None, opt_showInfo = None,
      opt_showLabels = None, opt_selection = None, opt_limit = None, opt_numNodes = None,
      opt_numEdges = None\<rparr>"

text \<open>The properties of \<^verbatim>\<open>this\<close> set by lines 54 to 62.\<close>

record that_t =
  layout :: string
  layout_options :: layout_opts
  show_stats :: bool
  show_info :: bool
  show_labels :: bool
  selection :: bool
  limit :: int
  nodes_count :: int
  edges_count :: int

definition SimpleGraph_this :: "options \<Rightarrow> that_t" where
  "SimpleGraph_this opts =
     \<lparr>layout = or_string (opt_layout opts) ''2d'',
      layout_options = (case opt_graphLayout opts of None \<Rightarrow> no_layout_opts | Some l \<Rightarrow> l),
      show_stats = or_bool (opt_showStats opts) False,
      show_info = or_bool (opt_showInfo opts) False,
      show_labels = or_bool (opt_showLabels opts) False,
      selection = or_bool (opt_selection opts) False,
      limit = or_number (opt_limit opts) 10,
      nodes_count = or_number (opt_numNodes opts) 20,
      edges_count = or_number (opt_numEdges opts) 10\<rparr>"

text \<open>
  Line 67: the object literal \<^verbatim>\<open>{limit: options.limit}\<close> handed to \<^verbatim>\<open>GRAPHVIS.Graph\<close>; the
  value is the \<^verbatim>\<open>limit\<close> property of that literal.
\<close>

definition SimpleGraph_Graph_options :: "options \<Rightarrow> int option" where
  "SimpleGraph_Graph_options opts = opt_limit opts"

section \<open>Objects, scene, document and collaborators\<close>

text \<open>
  \<^verbatim>\<open>GRAPHVIS.Node\<close> objects are shared between the graph, \<^verbatim>\<open>graphVisNodes\<close> and the render
  loop, so they live in a store and are named by their address, the index at which they
  were allocated. The record holds the properties this file reads and writes. Coordinates
  (random floating-point numbers, moved by the layout) are left out.
\<close>

type_synonym addr = nat

datatype scene_object =
    Mesh addr string "int option"
  | Label addr string
  | Line addr addr

record gnode =
  gnode_id :: string
  data_title :: "string option"
  data_group :: "string option"
  data_draw_object :: "scene_object option"
  data_label_object :: "scene_object option"

text \<open>
  The constructor \<^verbatim>\<open>GRAPHVIS.Node\<close> is not part of this file. The source reads \<^verbatim>\<open>newNode.id\<close>
  and writes properties of \<^verbatim>\<open>newNode.data\<close> right after the call, so the new object has the
  argument as its \<^verbatim>\<open>id\<close> and a \<^verbatim>\<open>data\<close> object, taken to be empty.
\<close>

definition new_Node :: "string \<Rightarrow> gnode" where
  "new_Node node_id' =
     \<lparr>gnode_id = node_id', data_title = None, data_group = None, data_draw_object = None,
      data_label_object = None\<rparr>"

definition lookup :: "'a list \<Rightarrow> addr \<Rightarrow> 'a option" where
  "lookup h a = (if a < length h then Some (h ! a) else None)"

text \<open>A child of \<^verbatim>\<open>document.body\<close>: its tag, its \<^verbatim>\<open>id\<close> attribute and its \<^verbatim>\<open>innerHTML\<close>.\<close>

record element =
  elem_tag :: string
  elem_id :: "string option"
  innerHTML :: string

text \<open>
  Calls into the collaborators, in the order they are made. The list is kept with the
  state so that theorems can say which calls a step makes.
\<close>

datatype call =
    AddNode addr
  | AddEdge "addr option" "addr option"
  | DrawNode addr
  | DrawEdge "addr option" "addr option"
  | Generate
  | ControlsUpdate
  | SelectionRender
  | StatsUpdate
  | RendererRender
  | StopCalculating

text \<open>
  The collaborators that are not part of this file, as parameters: the graph container
  \<^verbatim>\<open>GRAPHVIS.Graph\<close> with state \<open>'g\<close> (which also carries \<^verbatim>\<open>graph.layout\<close>), the layout
  \<^verbatim>\<open>Layout.ForceDirected\<close>, and the element made by \<^verbatim>\<open>Stats\<close>. \<open>addNode\<close> receives the
  address of the node and its contents at the time of the call; \<open>addEdge\<close> receives the two
  arguments, \<open>None\<close> for \<^verbatim>\<open>undefined\<close>.
\<close>

record 'g collaborators =
  new_Graph :: "int option \<Rightarrow> 'g"
  addNode :: "'g \<Rightarrow> addr \<Rightarrow> gnode \<Rightarrow> bool \<times> 'g"
  addEdge :: "'g \<Rightarrow> addr option \<Rightarrow> addr option \<Rightarrow> bool \<times> 'g"
  graph_nodes :: "'g \<Rightarrow> addr list"
  graph_edges :: "'g \<Rightarrow> (addr \<times> addr) list"
  new_ForceDirected :: "'g \<Rightarrow> layout_opts \<Rightarrow> 'g"
  layout_init :: "'g \<Rightarrow> 'g"
  layout_finished :: "'g \<Rightarrow> bool"
  layout_generate :: "'g \<Rightarrow> 'g"
  layout_stop_calculating :: "'g \<Rightarrow> 'g"
  stats_domElement :: element

text \<open>
  The variables of the closure (lines 64 to 71) and the document body. The variables
  \<^verbatim>\<open>object_selection\<close> and \<^verbatim>\<open>stats\<close> are declared without a value and assigned by \<^verbatim>\<open>init\<close>
  only under their flags; the field says whether the variable holds an object.
\<close>

record 'g state =
  that :: that_t
  graph :: 'g
  heap :: "gnode list"
  scene :: "scene_object list"
  geometries :: "(addr \<times> addr) list"
  info_text :: "(string \<times> string) list"
  object_selection :: bool
  stats :: bool
  body :: "element list"
  trace :: "call list"

text \<open>
  A function either completes or throws; the mutations made before the exception stay, so
  both outcomes carry the state.
\<close>

datatype error = TypeError

datatype 's outcome = Done 's | Threw error 's

fun final :: "'s outcome \<Rightarrow> 's" where
  "final (Done s) = s"
| "final (Threw e s) = s"

fun completes :: "'s outcome \<Rightarrow> bool" where
  "completes (Done s) = True"
| "completes (Threw e s) = False"

fun and_then :: "'s outcome \<Rightarrow> ('s \<Rightarrow> 's outcome) \<Rightarrow> 's outcome" where
  "and_then (Done s) f = f s"
| "and_then (Threw e s) f = Threw e s"

text \<open>\<^verbatim>\<open>Array.prototype.forEach\<close> with a callback that may throw.\<close>

fun forEach :: "('a \<Rightarrow> 's \<Rightarrow> 's outcome) \<Rightarrow> 'a list \<Rightarrow> 's \<Rightarrow> 's outcome" where
  "forEach f [] s = Done s"
| "forEach f (x # xs) s = and_then (f x s) (forEach f xs)"

text \<open>
  An object used as an ordered dictionary (\<^verbatim>\<open>info_text\<close>): assignment keeps the place of
  an existing key and appends a new one; \<^verbatim>\<open>for ... in\<close> visits string keys in that order.
\<close>

fun set_property :: "string \<Rightarrow> string \<Rightarrow> (string \<times> string) list \<Rightarrow> (string \<times> string) list" where
  "set_property k v [] = [(k, v)]"
| "set_property k v (p # ps) = (if fst p = k then (k, v) # ps else p # set_property k v ps)"

definition delete_property :: "string \<Rightarrow> (string \<times> string) list \<Rightarrow> (string \<times> string) list" where
  "delete_property k ps = filter (\<lambda>p. fst p \<noteq> k) ps"

definition get_property :: "(string \<times> string) list \<Rightarrow> string \<Rightarrow> string option" where
  "get_property ps k = map_of ps k"

section \<open>Initialisation and graph construction\<close>

text \<open>
  \<^verbatim>\<open>init\<close> (lines 77 to 147). The renderer, camera and controls have no part in the state
  modelled here; what remains is the new scene, the selection object and the stats object,
  each created only when its flag is set, and the children appended to the body: the
  canvas, the stats element and the info box.
\<close>

definition init :: "'g collaborators \<Rightarrow> 'g state \<Rightarrow> 'g state" where
  "init ext st =
     (let st1 = st\<lparr>scene := []\<rparr>;
          st2 = (if selection (that st1) then st1\<lparr>object_selection := True\<rparr> else st1);
          st3 = st2\<lparr>body := body st2 @ [\<lparr>elem_tag = ''canvas'', elem_id = None, innerHTML = []\<rparr>]\<rparr>;
          st4 = (if show_stats (that st3)
                 then st3\<lparr>stats := True, body := body st3 @ [stats_domElement ext]\<rparr> else st3)
      in if show_info (that st4)
         then st4\<lparr>body := body st4 @
                [\<lparr>elem_tag = ''div'', elem_id = Some ''graph-info'', innerHTML = []\<rparr>]\<rparr>
         else st4)"

text \<open>
  The \<^verbatim>\<open>selected\<close> callback given to \<^verbatim>\<open>THREE.ObjectSelection\<close> (lines 115 to 123); the argument
  is the \<^verbatim>\<open>id\<close> of the object, or \<open>None\<close> for \<^verbatim>\<open>null\<close>.
\<close>

definition selected :: "string option \<Rightarrow> 'g state \<Rightarrow> 'g state" where
  "selected obj st =
     (case obj of
        Some obj_id \<Rightarrow> st\<lparr>info_text := set_property ''select'' (''Object '' @ obj_id) (info_text st)\<rparr>
      | None \<Rightarrow> st\<lparr>info_text := delete_property ''select'' (info_text st)\<rparr>)"

definition nodeColors :: "string option \<Rightarrow> int option" where
  "nodeColors g =
     (if g = Some ''tracks'' then Some 13458524
      else if g = Some ''tags'' then Some 9943592
      else None)"

definition modify :: "addr \<Rightarrow> ('a \<Rightarrow> 'a) \<Rightarrow> 'a list \<Rightarrow> 'a list" where
  "modify a f h = (if a < length h then h[a := f (h ! a)] else h)"

definition label_text :: "gnode \<Rightarrow> string" where
  "label_text n = (case data_title n of Some t \<Rightarrow> t | None \<Rightarrow> gnode_id n)"

text \<open>\<^verbatim>\<open>drawNode\<close> (lines 219 to 251).\<close>

definition drawNode :: "addr \<Rightarrow> 'g state \<Rightarrow> 'g state outcome" where
  "drawNode a st0 =
     (let st = st0\<lparr>trace := trace st0 @ [DrawNode a]\<rparr> in
      case lookup (heap st) a of
        None \<Rightarrow> Threw TypeError st
      | Some node \<Rightarrow>
          (let draw_object = Mesh a (gnode_id node) (nodeColors (data_group node));
               st1 = (if show_labels (that st) then
                        (let label_object = Label a (label_text node)
                         in st\<lparr>heap := modify a (\<lambda>n. n\<lparr>data_label_object := Some label_object\<rparr>) (heap st),
                               scene := scene st @ [label_object]\<rparr>)
                      else st)
           in Done (st1\<lparr>heap := modify a (\<lambda>n. n\<lparr>data_draw_object := Some draw_object\<rparr>) (heap st1),
                         scene := scene st1 @ [draw_object]\<rparr>)))"

text \<open>
  \<^verbatim>\<open>source.data.draw_object.position\<close>: a \<^verbatim>\<open>TypeError\<close> when the node or its
  \<^verbatim>\<open>draw_object\<close> is \<^verbatim>\<open>undefined\<close>, and otherwise the position object, named here by the
  address of its node.
\<close>

definition draw_object_position :: "gnode list \<Rightarrow> addr option \<Rightarrow> addr option" where
  "draw_object_position h r =
     (case r of
        None \<Rightarrow> None
      | Some a \<Rightarrow>
          (case lookup h a of
             None \<Rightarrow> None
           | Some n \<Rightarrow> (case data_draw_object n of None \<Rightarrow> None | Some d \<Rightarrow> Some a)))"

text \<open>\<^verbatim>\<open>drawEdge\<close> (lines 257 to 275).\<close>

definition drawEdge :: "addr option \<Rightarrow> addr option \<Rightarrow> 'g state \<Rightarrow> 'g state outcome" where
  "drawEdge source target st0 =
     (let st = st0\<lparr>trace := trace st0 @ [DrawEdge source target]\<rparr> in
      case draw_object_position (heap st) source of
        None \<Rightarrow> Threw TypeError st
      | Some a \<Rightarrow>
          (case draw_object_position (heap st) target of
             None \<Rightarrow> Threw TypeError st
           | Some b \<Rightarrow>
               Done (st\<lparr>geometries := geometries st @ [(a, b)],
                         scene := scene st @ [Line a b]\<rparr>)))"

text \<open>
  The body of \<^verbatim>\<open>nodes.forEach\<close> (lines 191 to 198), on the dictionary \<^verbatim>\<open>graphVisNodes\<close>
  and the state. The keys of \<^verbatim>\<open>graphVisNodes\<close> begin with \<^verbatim>\<open>T\<close> or \<^verbatim>\<open>C\<close>, which no property
  inherited from \<^verbatim>\<open>Object.prototype\<close> does, so a key never stored reads as \<^verbatim>\<open>undefined\<close>.
\<close>

definition make_node :: "node \<Rightarrow> gnode" where
  "make_node node =
     (let newNode0 = new_Node (node_id node);
          newNode1 = (if node_label node \<noteq> []
                      then newNode0\<lparr>data_title := Some (node_label node)\<rparr> else newNode0)
      in newNode1\<lparr>data_group := Some (node_group node)\<rparr>)"

definition nodes_forEach_body ::
  "'g collaborators \<Rightarrow> node \<Rightarrow> (string \<rightharpoonup> addr) \<times> 'g state \<Rightarrow> ((string \<rightharpoonup> addr) \<times> 'g state) outcome"
where
  "nodes_forEach_body ext node gs =
     (case gs of (graphVisNodes, st) \<Rightarrow>
        (let a = length (heap st);
             newNode = make_node node;
             st1 = st\<lparr>heap := heap st @ [newNode]\<rparr>;
             r = addNode ext (graph st1) a newNode;
             st2 = st1\<lparr>graph := snd r, trace := trace st1 @ [AddNode a]\<rparr>
         in case (if fst r then drawNode a st2 else Done st2) of
              Done st3 \<Rightarrow> Done (graphVisNodes(gnode_id newNode \<mapsto> a), st3)
            | Threw e st3 \<Rightarrow> Threw e (graphVisNodes, st3)))"

text \<open>The body of \<^verbatim>\<open>edges.forEach\<close> (lines 200 to 204).\<close>

definition edges_forEach_body ::
  "'g collaborators \<Rightarrow> (string \<rightharpoonup> addr) \<Rightarrow> edge \<Rightarrow> 'g state \<Rightarrow> 'g state outcome"
where
  "edges_forEach_body ext graphVisNodes e st =
     (let fromNode = graphVisNodes (edge_from e);
          toNode = graphVisNodes (edge_to e);
          r = addEdge ext (graph st) fromNode toNode;
          st1 = st\<lparr>graph := snd r, trace := trace st @ [AddEdge fromNode toNode]\<rparr>
      in if fst r then drawEdge fromNode toNode st1 else Done st1)"

text \<open>Lines 206 to 213: the layout options with their defaults, the layout and the counts.\<close>

definition start_layout :: "'g collaborators \<Rightarrow> 'g state \<Rightarrow> 'g state" where
  "start_layout ext st =
     (let lo = layout_options (that st);
          lo' = \<lparr>lo_width = Some (or_number (lo_width lo) 2000),
                 lo_height = Some (or_number (lo_height lo) 2000),
                 lo_iterations = Some (or_number (lo_iterations lo) 100000),
                 lo_layout = Some (or_string (lo_layout lo) (layout (that st)))\<rparr>;
          g = layout_init ext (new_ForceDirected ext (graph st) lo');
          info1 = set_property ''nodes''
                    (''Nodes '' @ number_to_string (int (length (graph_nodes ext g)))) (info_text st);
          info2 = set_property ''edges''
                    (''Edges '' @ number_to_string (int (length (graph_edges ext g)))) info1
      in st\<lparr>that := (that st)\<lparr>layout_options := lo'\<rparr>, graph := g, info_text := info2\<rparr>)"

text \<open>
  \<^verbatim>\<open>createGraph\<close> (lines 155 to 214) for a given dataset, and for the one of line 159. The
  node loop returns the dictionary it has filled, which the edge loop reads.
\<close>

definition nodes_forEach ::
  "'g collaborators \<Rightarrow> node list \<Rightarrow> 'g state \<Rightarrow> ((string \<rightharpoonup> addr) \<times> 'g state) outcome"
where
  "nodes_forEach ext ns st = forEach (nodes_forEach_body ext) ns (Map.empty, st)"

definition createGraph_of :: "'g collaborators \<Rightarrow> bucket_t \<Rightarrow> 'g state \<Rightarrow> 'g state outcome" where
  "createGraph_of ext b st =
     (case nodes_forEach ext (nodes b) st of
        Threw e gs \<Rightarrow> Threw e (snd gs)
      | Done gs \<Rightarrow>
          (case forEach (edges_forEach_body ext (fst gs)) (edges b) (snd gs) of
             Threw e st2 \<Rightarrow> Threw e st2
           | Done st2 \<Rightarrow> Done (start_layout ext st2)))"

definition createGraph :: "'g collaborators \<Rightarrow> 'g state \<Rightarrow> 'g state outcome" where
  "createGraph ext st = createGraph_of ext bucket st"

section \<open>The render loop\<close>

definition calculating :: string where
  "calculating = ''<span style='color: red'>Calculating layout...</span>''"

text \<open>
  One round of the label loop of \<^verbatim>\<open>render\<close> for the node at \<^verbatim>\<open>graph.nodes[i]\<close>: with
  \<^verbatim>\<open>show_labels\<close> (lines 310 to 325) and without (lines 330 to 334).
\<close>

definition label_step :: "addr \<Rightarrow> 'g state \<Rightarrow> 'g state outcome" where
  "label_step a st =
     (case lookup (heap st) a of
        None \<Rightarrow> Threw TypeError st
      | Some node \<Rightarrow>
          (case data_label_object node of
             Some l \<Rightarrow>
               (case data_draw_object node of None \<Rightarrow> Threw TypeError st | Some d \<Rightarrow> Done st)
           | None \<Rightarrow>
               (let label_object = Label a (label_text node)
                in Done (st\<lparr>heap := modify a (\<lambda>n. n\<lparr>data_label_object := Some label_object\<rparr>) (heap st),
                              scene := scene st @ [label_object]\<rparr>))))"

definition unlabel_step :: "addr \<Rightarrow> 'g state \<Rightarrow> 'g state outcome" where
  "unlabel_step a st =
     (case lookup (heap st) a of
        None \<Rightarrow> Threw TypeError st
      | Some node \<Rightarrow>
          (case data_label_object node of
             Some l \<Rightarrow>
               Done (st\<lparr>scene := remove1 l (scene st),
                         heap := modify a (\<lambda>n. n\<lparr>data_label_object := None\<rparr>) (heap st)\<rparr>)
           | None \<Rightarrow> Done st))"

text \<open>
  The end of \<^verbatim>\<open>render\<close> (lines 338 to 349): the selection, the stats and the frame. The
  flags are read from \<^verbatim>\<open>that\<close> at every step, the objects were created by \<^verbatim>\<open>init\<close> under the
  flags of that time: a method call on a variable that is still \<^verbatim>\<open>undefined\<close> throws a
  \<^verbatim>\<open>TypeError\<close>. The argument \<open>sel\<close> lists the calls of the \<^verbatim>\<open>selected\<close> callback that
  \<^verbatim>\<open>object_selection.render\<close> makes in this step.
\<close>

definition render_selection :: "string option list \<Rightarrow> 'g state \<Rightarrow> 'g state outcome" where
  "render_selection sel st =
     (if selection (that st) then
        (if object_selection st
         then Done (fold selected sel (st\<lparr>trace := trace st @ [SelectionRender]\<rparr>))
         else Threw TypeError st)
      else Done st)"

definition update_stats :: "'g state \<Rightarrow> 'g state outcome" where
  "update_stats st =
     (if show_stats (that st) then
        (if stats st then Done (st\<lparr>trace := trace st @ [StatsUpdate]\<rparr>) else Threw TypeError st)
      else Done st)"

definition render_scene :: "string option list \<Rightarrow> 'g state \<Rightarrow> 'g state outcome" where
  "render_scene sel st2 =
     and_then (render_selection sel st2)
       (\<lambda>st3. and_then (update_stats st3)
          (\<lambda>st4. Done (st4\<lparr>trace := trace st4 @ [RendererRender]\<rparr>)))"

text \<open>
  \<^verbatim>\<open>render\<close> (lines 288 to 350). Setting \<^verbatim>\<open>verticesNeedUpdate\<close> on the line geometries
  (lines 300 to 302) changes nothing that is modelled.
\<close>

definition render :: "'g collaborators \<Rightarrow> string option list \<Rightarrow> 'g state \<Rightarrow> 'g state outcome" where
  "render ext sel st =
     (let st1 = (if \<not> layout_finished ext (graph st) then
                   st\<lparr>info_text := set_property ''calc'' calculating (info_text st),
                      graph := layout_generate ext (graph st),
                      trace := trace st @ [Generate]\<rparr>
                 else st\<lparr>info_text := set_property ''calc'' [] (info_text st)\<rparr>)
      in and_then
           (forEach (if show_labels (that st1) then label_step else unlabel_step)
              (graph_nodes ext (graph st1)) st1)
           (render_scene sel))"

text \<open>\<^verbatim>\<open>printInfo\<close> (lines 355 to 364): the string built by the loop, and the assignment.\<close>

definition printInfo_str :: "(string \<times> string) list \<Rightarrow> string" where
  "printInfo_str info =
     foldl (\<lambda>str p. (if str \<noteq> [] \<and> snd p \<noteq> [] then str @ '' - '' else str) @ snd p) [] info"

fun getElementById :: "element list \<Rightarrow> string \<Rightarrow> nat option" where
  "getElementById [] i = None"
| "getElementById (e # es) i =
     (if elem_id e = Some i then Some 0 else map_option Suc (getElementById es i))"

definition printInfo :: "'g state \<Rightarrow> 'g state outcome" where
  "printInfo st =
     (let str = printInfo_str (info_text st) in
      case getElementById (body st) ''graph-info'' of
        None \<Rightarrow> Threw TypeError st
      | Some k \<Rightarrow> Done (st\<lparr>body := modify k (\<lambda>e. e\<lparr>innerHTML := str\<rparr>) (body st)\<rparr>))"

text \<open>
  \<^verbatim>\<open>animate\<close> (lines 278 to 285), one frame. \<^verbatim>\<open>controls.update()\<close> may dispatch the
  \<^verbatim>\<open>change\<close> event, whose listener is \<^verbatim>\<open>render\<close>: \<open>change\<close> is \<open>Some sel\<close> when it does.
\<close>

record frame_input =
  change :: "string option list option"
  picked :: "string option list"

definition animate :: "'g collaborators \<Rightarrow> frame_input \<Rightarrow> 'g state \<Rightarrow> 'g state outcome" where
  "animate ext inp st =
     (let st0 = st\<lparr>trace := trace st @ [ControlsUpdate]\<rparr> in
      and_then (case change inp of None \<Rightarrow> Done st0 | Some sel \<Rightarrow> render ext sel st0)
        (\<lambda>st1. and_then (render ext (picked inp) st1)
           (\<lambda>st2. if show_info (that st2) then printInfo st2 else Done st2)))"

definition stop_calculating :: "'g collaborators \<Rightarrow> 'g state \<Rightarrow> 'g state" where
  "stop_calculating ext st =
     st\<lparr>graph := layout_stop_calculating ext (graph st), trace := trace st @ [StopCalculating]\<rparr>"

text \<open>
  What happens after the constructor has returned: animation frames, \<^verbatim>\<open>change\<close> events of
  the controls on user input (their listener is \<^verbatim>\<open>render\<close>), calls of the public method
  \<^verbatim>\<open>stop_calculating\<close>, and assignments by the page to the public properties of the object
  (line 306 expects \<^verbatim>\<open>show_labels\<close> to be set during the visualisation).
  \<^verbatim>\<open>requestAnimationFrame(animate)\<close> is the first statement of \<^verbatim>\<open>animate\<close>, so the next frame
  runs whether or not this one throws.
\<close>

datatype event =
    Frame frame_input
  | Change "string option list"
  | Stop
  | Assign "that_t \<Rightarrow> that_t"

fun step :: "'g collaborators \<Rightarrow> event \<Rightarrow> 'g state \<Rightarrow> 'g state" where
  "step ext (Frame inp) st = final (animate ext inp st)"
| "step ext (Change sel) st = final (render ext sel st)"
| "step ext Stop st = stop_calculating ext st"
| "step ext (Assign f) st = st\<lparr>that := f (that st)\<rparr>"

fun run :: "'g collaborators \<Rightarrow> event list \<Rightarrow> 'g state \<Rightarrow> 'g state" where
  "run ext [] st = st"
| "run ext (ev # evs) st = run ext evs (step ext ev st)"

text \<open>
  The constructor (lines 51 to 75) in a document with the given elements: the closure
  variables, then \<^verbatim>\<open>init\<close>, \<^verbatim>\<open>createGraph\<close> and the first call of \<^verbatim>\<open>animate\<close>.
\<close>

definition initial_state :: "'g collaborators \<Rightarrow> element list \<Rightarrow> options option \<Rightarrow> 'g state" where
  "initial_state ext document options' =
     (let opts = (case options' of None \<Rightarrow> no_options | Some x \<Rightarrow> x)
      in \<lparr>that = SimpleGraph_this opts,
          graph = new_Graph ext (SimpleGraph_Graph_options opts),
          heap = [], scene = [], geometries = [], info_text = [], object_selection = False,
          stats = False, body = document, trace = []\<rparr>)"

definition SimpleGraph ::
  "'g collaborators \<Rightarrow> element list \<Rightarrow> options option \<Rightarrow> frame_input \<Rightarrow> 'g state outcome"
where
  "SimpleGraph ext document options' inp =
     and_then (createGraph ext (init ext (initial_state ext document options'))) (animate ext inp)"

section \<open>The joined status string, as the specification describes it\<close>

text \<open>
  The values joined so that the separator stands exactly between consecutive non-empty
  values; empty values contribute nothing. This follows the wording of the specification
  and is compared with \<open>printInfo_str\<close> below.
\<close>

fun join :: "string \<Rightarrow> string list \<Rightarrow> string" where
  "join sep [] = []"
| "join sep [x] = x"
| "join sep (x # y # ys) = x @ sep @ join sep (y # ys)"

definition hyphen_joined :: "string list \<Rightarrow> string" where
  "hyphen_joined vals = join '' - '' (filter (\<lambda>v. v \<noteq> []) vals)"

section \<open>A graph container and a layout to run the program with\<close>

text \<open>
  Modelled from the spec: \<^verbatim>\<open>GRAPHVIS.Graph\<close> and \<^verbatim>\<open>Layout.ForceDirected\<close> are not part of
  this file. The specification describes the graph as a node and edge container whose add
  operations report failure on duplicates, capped at a configurable node limit, and the
  layout by its contract of \<^verbatim>\<open>init\<close>, \<^verbatim>\<open>generate\<close>, \<^verbatim>\<open>finished\<close> and \<^verbatim>\<open>stop_calculating\<close>.
  The layout here counts iterations down. These definitions serve to run the program on
  concrete inputs; the theorems about the program hold for every collaborator.
\<close>

record demo_graph =
  dg_limit :: "int option"
  dg_nodes :: "addr list"
  dg_ids :: "string list"
  dg_edges :: "(addr \<times> addr) list"
  dg_remaining :: int

definition demo_reached_limit :: "demo_graph \<Rightarrow> bool" where
  "demo_reached_limit g =
     (case dg_limit g of None \<Rightarrow> False | Some l \<Rightarrow> l \<le> int (length (dg_nodes g)))"

definition demo_addNode :: "demo_graph \<Rightarrow> addr \<Rightarrow> gnode \<Rightarrow> bool \<times> demo_graph" where
  "demo_addNode g a n =
     (if gnode_id n \<notin> set (dg_ids g) \<and> \<not> demo_reached_limit g
      then (True, g\<lparr>dg_nodes := dg_nodes g @ [a], dg_ids := dg_ids g @ [gnode_id n]\<rparr>)
      else (False, g))"

definition demo_addEdge :: "demo_graph \<Rightarrow> addr option \<Rightarrow> addr option \<Rightarrow> bool \<times> demo_graph" where
  "demo_addEdge g source target =
     (case (source, target) of
        (Some a, Some b) \<Rightarrow>
          if (a, b) \<in> set (dg_edges g) then (False, g)
          else (True, g\<lparr>dg_edges := dg_edges g @ [(a, b)]\<rparr>)
      | _ \<Rightarrow> (False, g))"

definition demo :: "demo_graph collaborators" where
  "demo =
     \<lparr>new_Graph = (\<lambda>l. \<lparr>dg_limit = l, dg_nodes = [], dg_ids = [], dg_edges = [], dg_remaining = 0\<rparr>),
      addNode = demo_addNode,
      addEdge = demo_addEdge,
      graph_nodes = dg_nodes,
      graph_edges = dg_edges,
      new_ForceDirected =
        (\<lambda>g lo. g\<lparr>dg_remaining := (case lo_iterations lo of None \<Rightarrow> 0 | Some n \<Rightarrow> n)\<rparr>),
      layout_init = (\<lambda>g. g),
      layout_finished = (\<lambda>g. dg_remaining g \<le> 0),
      layout_generate = (\<lambda>g. g\<lparr>dg_remaining := dg_remaining g - 1\<rparr>),
      layout_stop_calculating = (\<lambda>g. g\<lparr>dg_remaining := 0\<rparr>),
      stats_domElement = \<lparr>elem_tag = ''div'', elem_id = Some ''stats'', innerHTML = []\<rparr>\<rparr>"

text \<open>
  The contents of the graph that the frame property is about: the node list and the edge
  list of the container, and the identifiers of the node objects.
\<close>

definition graph_contents ::
  "'g collaborators \<Rightarrow> 'g state \<Rightarrow> addr list \<times> (addr \<times> addr) list \<times> string list"
where
  "graph_contents ext st =
     (graph_nodes ext (graph st), graph_edges ext (graph st), map gnode_id (heap st))"

text \<open>
  Every node of the graph is a node object that has been drawn. \<^verbatim>\<open>render\<close> reads
  \<^verbatim>\<open>node.data.draw_object.position\<close> of the nodes in \<^verbatim>\<open>graph.nodes\<close>, which throws otherwise.
\<close>

definition has_draw_object :: "gnode list \<Rightarrow> addr \<Rightarrow> bool" where
  "has_draw_object h a =
     (case lookup h a of None \<Rightarrow> False | Some n \<Rightarrow> data_draw_object n \<noteq> None)"

definition all_drawn :: "'g collaborators \<Rightarrow> 'g state \<Rightarrow> bool" where
  "all_drawn ext st = list_all (has_draw_object (heap st)) (graph_nodes ext (graph st))"

text \<open>
  The selection object and the stats object exist whenever their flags are set, so that
  the end of \<^verbatim>\<open>render\<close> does not throw.
\<close>

definition overlays_ready :: "'g state \<Rightarrow> bool" where
  "overlays_ready st =
     ((if selection (that st) then object_selection st else True) \<and>
      (if show_stats (that st) then stats st else True))"

text \<open>
  How far the construction gets with the container \<open>demo\<close>, started on an empty store: of the
  first \<open>n\<close> nodes offered, the container accepts as many as its limit allows; those
  are its node list, and exactly those node objects have been drawn.
\<close>

definition demo_capacity :: "demo_graph \<Rightarrow> nat \<Rightarrow> nat" where
  "demo_capacity g n = (case dg_limit g of None \<Rightarrow> n | Some l \<Rightarrow> min n (nat l))"

definition demo_inv :: "demo_graph state \<Rightarrow> bool" where
  "demo_inv st =
     (let n = length (heap st); m = demo_capacity (graph st) n in
      dg_nodes (graph st) = [0..<m] \<and>
      dg_ids (graph st) = take m (map gnode_id (heap st)) \<and>
      distinct (map gnode_id (heap st)) \<and>
      map (\<lambda>nd. data_draw_object nd \<noteq> None) (heap st) =
        replicate m True @ replicate (n - m) False)"

text \<open>
  Two pages for the constructor: one whose options set the limit to 10, and one whose
  document already holds an element with the id \<^verbatim>\<open>graph-info\<close> and whose options switch
  the info box on.
\<close>

definition limited_start :: "demo_graph state" where
  "limited_start = init demo (initial_state demo [] (Some (no_options\<lparr>opt_limit := Some 10\<rparr>)))"

definition crowded_document :: "element list" where
  "crowded_document = [\<lparr>elem_tag = ''div'', elem_id = Some ''graph-info'', innerHTML = []\<rparr>]"

definition crowded_run :: "demo_graph state outcome" where
  "crowded_run =
     SimpleGraph demo crowded_document (Some (no_options\<lparr>opt_showInfo := Some True\<rparr>))
       \<lparr>change = None, picked = []\<rparr>"

text \<open>
  A small run, used to instantiate the theorems below: the construction of the graph from
  a dataset of three tracks, with the info box, labels and selection switched on and a
  layout that takes one iteration.
\<close>

definition sample_options :: options where
  "sample_options =
     no_options\<lparr>opt_showInfo := Some True, opt_showLabels := Some True, opt_selection := Some True,
                opt_graphLayout := Some (no_layout_opts\<lparr>lo_iterations := Some 1\<rparr>)\<rparr>"

definition sample_bucket :: bucket_t where
  "sample_bucket =
     \<lparr>tracks = [\<lparr>trackId = 7, tags = Some [''a'', ''b''], track_note = None\<rparr>,
                \<lparr>trackId = 8, tags = None, track_note = None\<rparr>,
                \<lparr>trackId = 9, tags = Some [], track_note = None\<rparr>],
      bucket_tags = [''a'', ''b'']\<rparr>"

definition sample_state :: "demo_graph state" where
  "sample_state =
     final (createGraph_of demo sample_bucket
       (init demo (initial_state demo [] (Some sample_options))))"

section \<open>Properties of the transform\<close>

subsection \<open>Decimal numerals are injective\<close>

lemma small_int_cases:
  "0 \<le> (d::int) \<Longrightarrow> d < 10 \<Longrightarrow> d \<in> {0, 1, 2, 3, 4, 5, 6, 7, 8, 9}"
  by simp arith

lemma digit_val_digit_char: "0 \<le> d \<Longrightarrow> d < 10 \<Longrightarrow> digit_val (digit_char d) = d"
  using small_int_cases [of d] by (auto simp: digit_val_def digit_char_def)

lemma digit_char_inj:
  "0 \<le> a \<Longrightarrow> a < 10 \<Longrightarrow> 0 \<le> b \<Longrightarrow> b < 10 \<Longrightarrow> digit_char a = digit_char b \<Longrightarrow> a = b"
  by (metis digit_val_digit_char)

lemma digit_char_not_minus: "0 \<le> d \<Longrightarrow> d < 10 \<Longrightarrow> digit_char d \<noteq> CHR ''-''"
  using small_int_cases [of d] by (auto simp: digit_char_def)

lemma digits_not_Nil: "digits n \<noteq> []"
  by (subst digits.simps) simp

lemma digits_inj: "0 \<le> n \<Longrightarrow> 0 \<le> m \<Longrightarrow> digits n = digits m \<Longrightarrow> n = m"
proof (induction n arbitrary: m rule: digits.induct)
  case (1 n)
  show ?case
  proof (cases "n < 10")
    case nsmall: True
    show ?thesis
    proof (cases "m < 10")
      case True
      with nsmall "1.prems" show ?thesis
        by (simp add: digits.simps [of n] digits.simps [of m] digit_char_inj)
    next
      case False
      with nsmall "1.prems" digits_not_Nil [of "m div 10"] show ?thesis
        by (simp add: digits.simps [of n] digits.simps [of m])
    qed
  next
    case nbig: False
    show ?thesis
    proof (cases "m < 10")
      case True
      with nbig "1.prems" digits_not_Nil [of "n div 10"] show ?thesis
        by (simp add: digits.simps [of n] digits.simps [of m])
    next
      case False
      with nbig "1.prems" have eq: "digits (n div 10) = digits (m div 10)"
        and dc: "digit_char (n mod 10) = digit_char (m mod 10)"
        by (simp_all add: digits.simps [of n] digits.simps [of m])
      from nbig "1.prems" eq have "n div 10 = m div 10"
        by (intro "1.IH") simp_all
      moreover from dc have "n mod 10 = m mod 10"
        by (intro digit_char_inj) simp_all
      ultimately show ?thesis
        by (metis div_mult_mod_eq)
    qed
  qed
qed

lemma hd_digits_not_minus: "0 \<le> n \<Longrightarrow> hd (digits n) \<noteq> CHR ''-''"
proof (induction n rule: digits.induct)
  case (1 n)
  show ?case
  proof (cases "n < 10")
    case True
    with "1.prems" show ?thesis
      by (simp add: digits.simps [of n] digit_char_not_minus)
  next
    case False
    with "1.prems" "1.IH" digits_not_Nil [of "n div 10"] show ?thesis
      by (simp add: digits.simps [of n])
  qed
qed

lemma number_to_string_inj: "number_to_string n = number_to_string m \<Longrightarrow> n = m"
proof -
  assume eq: "number_to_string n = number_to_string m"
  have neg: "\<And>a b. a < 0 \<Longrightarrow> 0 \<le> b \<Longrightarrow> number_to_string a \<noteq> number_to_string b"
  proof
    fix a b :: int
    assume a: "a < 0" and b: "0 \<le> b" and e: "number_to_string a = number_to_string b"
    then have "hd (digits b) = CHR ''-''"
      by (simp add: number_to_string_def) (metis list.sel(1))
    with hd_digits_not_minus [OF b] show False by simp
  qed
  show ?thesis
  proof (cases "n < 0"; cases "m < 0")
    assume "n < 0" "m < 0"
    with eq have "digits (- n) = digits (- m)" by (simp add: number_to_string_def)
    with \<open>n < 0\<close> \<open>m < 0\<close> have "- n = - m" by (intro digits_inj) simp_all
    then show ?thesis by simp
  next
    assume "n < 0" "\<not> m < 0"
    with neg [of n m] eq show ?thesis by simp
  next
    assume "\<not> n < 0" "m < 0"
    with neg [of m n] eq show ?thesis by simp
  next
    assume "\<not> n < 0" "\<not> m < 0"
    with eq show ?thesis by (intro digits_inj) (simp_all add: number_to_string_def)
  qed
qed

lemma track_node_id_eq [simp]: "track_node_id s = track_node_id t \<longleftrightarrow> trackId s = trackId t"
  by (auto simp: track_node_id_def dest: number_to_string_inj)

subsection \<open>The loop over the tracks in closed form\<close>

lemma foldl_push_edge:
  "foldl (push_edge i) es ts = es @ map (\<lambda>tag. \<lparr>edge_from = i, edge_to = ''C'' @ tag\<rparr>) ts"
  by (induction ts arbitrary: es) (simp_all add: push_edge_def)

lemma track_step_eq:
  "track_step (ns, es) t = (ns @ nodes_of_track t, es @ edges_of_track t)"
  by (simp add: track_step_def nodes_of_track_def edges_of_track_def tag_list_def
      track_node_id_def foldl_push_edge Let_def split: option.split)

lemma foldl_track_step:
  "foldl track_step (ns, es) ts =
     (ns @ concat (map nodes_of_track ts), es @ concat (map edges_of_track ts))"
  by (induction ts arbitrary: ns es) (simp_all add: track_step_eq)

lemma trackNodes_eq: "trackNodes b = concat (map nodes_of_track (tracks b))"
  by (simp add: trackNodes_def tracks_forEach_def foldl_track_step)

lemma edges_eq: "edges b = concat (map edges_of_track (tracks b))"
  by (simp add: edges_def tracks_forEach_def foldl_track_step)

lemma tagNodes_eq: "tagNodes b = map tag_node (bucket_tags b)"
  by (simp add: tagNodes_def tag_node_def)

lemma nodes_eq: "nodes b = concat (map nodes_of_track (tracks b)) @ map tag_node (bucket_tags b)"
  by (simp add: nodes_def trackNodes_eq tagNodes_eq)

subsection \<open>Selecting by identifier\<close>

lemma filter_nodes_of_track_other:
  "trackId s \<noteq> trackId t \<Longrightarrow> filter (\<lambda>n. node_id n = track_node_id t) (nodes_of_track s) = []"
  by (simp add: nodes_of_track_def)

lemma filter_nodes_of_track_self:
  "filter (\<lambda>n. node_id n = track_node_id t) (nodes_of_track t) = nodes_of_track t"
  by (simp add: nodes_of_track_def)

lemma filter_track_nodes:
  "distinct (map trackId ts) \<Longrightarrow> t \<in> set ts \<Longrightarrow>
   filter (\<lambda>n. node_id n = track_node_id t) (concat (map nodes_of_track ts)) = nodes_of_track t"
proof (induction ts)
  case Nil
  then show ?case by simp
next
  case (Cons s ts)
  show ?case
  proof (cases "s = t")
    case True
    with Cons.prems have "trackId t \<notin> trackId ` set ts" by simp
    then have "\<forall>u \<in> set ts. trackId u \<noteq> trackId t" by (metis imageI)
    then have "filter (\<lambda>n. node_id n = track_node_id t) (concat (map nodes_of_track ts)) = []"
      by (induction ts) (simp_all add: filter_nodes_of_track_other)
    with True show ?thesis by (simp add: filter_nodes_of_track_self)
  next
    case False
    with Cons.prems have "t \<in> set ts" "trackId s \<noteq> trackId t" by auto
    with Cons show ?thesis by (simp add: filter_nodes_of_track_other)
  qed
qed

lemma filter_edges_of_track_other:
  "trackId s \<noteq> trackId t \<Longrightarrow> filter (\<lambda>e. edge_from e = track_node_id t) (edges_of_track s) = []"
  by (simp add: edges_of_track_def)

lemma filter_edges_of_track_self:
  "filter (\<lambda>e. edge_from e = track_node_id t) (edges_of_track t) = edges_of_track t"
  by (simp add: edges_of_track_def)

lemma filter_track_edges:
  "distinct (map trackId ts) \<Longrightarrow> t \<in> set ts \<Longrightarrow>
   filter (\<lambda>e. edge_from e = track_node_id t) (concat (map edges_of_track ts)) = edges_of_track t"
proof (induction ts)
  case Nil
  then show ?case by simp
next
  case (Cons s ts)
  show ?case
  proof (cases "s = t")
    case True
    with Cons.prems have "trackId t \<notin> trackId ` set ts" by simp
    then have "\<forall>u \<in> set ts. trackId u \<noteq> trackId t" by (metis imageI)
    then have "filter (\<lambda>e. edge_from e = track_node_id t) (concat (map edges_of_track ts)) = []"
      by (induction ts) (simp_all add: filter_edges_of_track_other)
    with True show ?thesis by (simp add: filter_edges_of_track_self)
  next
    case False
    with Cons.prems have "t \<in> set ts" "trackId s \<noteq> trackId t" by auto
    with Cons show ?thesis by (simp add: filter_edges_of_track_other)
  qed
qed

lemma filter_tag_nodes_by_track_id:
  "filter (\<lambda>n. node_id n = track_node_id t) (map tag_node gs) = []"
  by (induction gs) (simp_all add: tag_node_def track_node_id_def)

lemma filter_track_nodes_by_tag_id:
  "filter (\<lambda>n. node_id n = ''C'' @ g) (concat (map nodes_of_track ts)) = []"
  by (induction ts) (simp_all add: nodes_of_track_def track_node_id_def)

lemma tag_node_sel [simp]:
  "node_id (tag_node g) = ''C'' @ g" "node_label (tag_node g) = g" "node_group (tag_node g) = ''tags''"
  by (simp_all add: tag_node_def)

lemma filter_tag_nodes:
  "distinct gs \<Longrightarrow> g \<in> set gs \<Longrightarrow> filter (\<lambda>n. node_id n = ''C'' @ g) (map tag_node gs) = [tag_node g]"
proof (induction gs)
  case Nil
  then show ?case by simp
next
  case (Cons h gs)
  show ?case
  proof (cases "h = g")
    case True
    with Cons.prems have "g \<notin> set gs" by simp
    then have "filter (\<lambda>n. node_id n = ''C'' @ g) (map tag_node gs) = []"
      by (induction gs) auto
    with True show ?thesis by simp
  next
    case False
    with Cons show ?thesis by simp
  qed
qed

subsection \<open>Facts of the dataset\<close>

lemma bucket_trackIds_distinct: "distinct (map trackId (tracks bucket))"
  by code_simp

lemma bucket_nodes_length: "length (nodes bucket) = 71"
  by (simp add: nodes_eq bucket_def nodes_of_track_def tag_list_def)

lemma bucket_tags_distinct: "distinct (bucket_tags bucket)"
  by code_simp

lemma bucket_tag_lists_distinct: "\<forall>t \<in> set (tracks bucket). distinct (tag_list t)"
  by code_simp

lemma bucket_tag_lists_known:
  "\<forall>t \<in> set (tracks bucket). \<forall>g \<in> set (tag_list t). g \<in> set (bucket_tags bucket)"
  by code_simp

subsection \<open>What the arrays contain\<close>

lemma track_contribution:
  assumes "distinct (map trackId (tracks b))" and "t \<in> set (tracks b)"
  shows "filter (\<lambda>n. node_id n = track_node_id t) (nodes b) = nodes_of_track t"
    and "filter (\<lambda>e. edge_from e = track_node_id t) (edges b) = edges_of_track t"
  using assms
  by (simp_all add: nodes_eq edges_eq filter_track_nodes filter_track_edges
      filter_tag_nodes_by_track_id)

lemma tag_contribution:
  assumes "distinct (bucket_tags b)" and "g \<in> set (bucket_tags b)"
  shows "filter (\<lambda>n. node_id n = ''C'' @ g) (nodes b) = [tag_node g]"
  using assms filter_tag_nodes [of "bucket_tags b" g] filter_track_nodes_by_tag_id [of g "tracks b"]
  by (simp add: nodes_eq)

lemma set_edges:
  "set (edges b) =
     {\<lparr>edge_from = track_node_id t, edge_to = ''C'' @ g\<rparr> | t g. t \<in> set (tracks b) \<and> g \<in> set (tag_list t)}"
  by (auto simp: edges_eq edges_of_track_def)

lemma set_nodes:
  "set (nodes b) =
     {\<lparr>node_id = track_node_id t, node_label = [], node_group = ''tracks''\<rparr> | t.
        t \<in> set (tracks b) \<and> tag_list t \<noteq> []} \<union> tag_node ` set (bucket_tags b)"
  by (auto simp: nodes_eq nodes_of_track_def split: if_splits)

lemma map_node_id_track_nodes:
  "map node_id (concat (map nodes_of_track ts)) =
     map track_node_id (filter (\<lambda>t. tag_list t \<noteq> []) ts)"
  by (induction ts) (simp_all add: nodes_of_track_def)

lemma distinct_node_ids:
  assumes "distinct (map trackId (filter (\<lambda>t. tag_list t \<noteq> []) (tracks b)))"
    and "distinct (bucket_tags b)"
  shows "distinct (map node_id (nodes b))"
proof -
  let ?ts = "filter (\<lambda>t. tag_list t \<noteq> []) (tracks b)"
  have "inj_on track_node_id (set ?ts)"
  proof (rule inj_onI)
    fix s t assume st: "s \<in> set ?ts" "t \<in> set ?ts" "track_node_id s = track_node_id t"
    then have "trackId s = trackId t" by simp
    with assms(1) st show "s = t" by (meson distinct_map inj_onD)
  qed
  with assms(1) have d1: "distinct (map track_node_id ?ts)"
    by (simp add: distinct_map)
  have d2: "distinct (map node_id (map tag_node (bucket_tags b)))"
    using assms(2) by (simp add: distinct_map inj_on_def o_def)
  have "set (map track_node_id ?ts) \<inter> set (map node_id (map tag_node (bucket_tags b))) = {}"
    by (auto simp: track_node_id_def)
  with d1 d2 show ?thesis
    by (simp add: nodes_eq map_node_id_track_nodes)
qed

lemma length_filter_eq_map:
  "inj f \<Longrightarrow> distinct xs \<Longrightarrow> x \<in> set xs \<Longrightarrow> length (filter (\<lambda>e. e = f x) (map f xs)) = 1"
proof (induction xs)
  case Nil
  then show ?case by simp
next
  case (Cons y ys)
  show ?case
  proof (cases "y = x")
    case True
    with Cons.prems have "x \<notin> set ys" by simp
    with Cons.prems(1) have "filter (\<lambda>e. e = f x) (map f ys) = []"
      by (induction ys) (auto dest: injD)
    with True show ?thesis by simp
  next
    case False
    with Cons show ?thesis by (auto dest: injD)
  qed
qed

lemma one_edge_per_association:
  assumes "distinct (map trackId (tracks b))" and "t \<in> set (tracks b)"
    and "distinct (tag_list t)" and "g \<in> set (tag_list t)"
  shows "length (filter (\<lambda>e. e = \<lparr>edge_from = track_node_id t, edge_to = ''C'' @ g\<rparr>) (edges b)) = 1"
proof -
  let ?f = "\<lambda>g. \<lparr>edge_from = track_node_id t, edge_to = ''C'' @ g\<rparr>"
  have "filter (\<lambda>e. e = ?f g) (edges b) =
        filter (\<lambda>e. e = ?f g) (filter (\<lambda>e. edge_from e = track_node_id t) (edges b))"
    by (simp add: conj_commute cong: conj_cong) (rule filter_cong, auto)
  also have "\<dots> = filter (\<lambda>e. e = ?f g) (map ?f (tag_list t))"
    using assms(1,2) by (simp add: track_contribution(2) edges_of_track_def)
  finally have "filter (\<lambda>e. e = ?f g) (edges b) = filter (\<lambda>e. e = ?f g) (map ?f (tag_list t))" .
  moreover have "inj ?f" by (simp add: inj_on_def)
  ultimately show ?thesis
    using assms(3,4) length_filter_eq_map [of ?f "tag_list t" g] by simp
qed

section \<open>The claims about the transform\<close>

text \<open>
  C1. For every track entry of the dataset: when its tag list is present and not empty, the
  transform produces exactly one node with the identifier \<^verbatim>\<open>T\<close> followed by the track id, in
  group \<^verbatim>\<open>tracks\<close>, and the edges from that identifier are one per element of the tag list, in
  order; when the tag list is absent or empty, there is no such node and no such edge.
\<close>

theorem C1_track_entries:
  "\<forall>t \<in> set (tracks bucket).
     (case tags t of
        Some (tag # rest) \<Rightarrow>
          filter (\<lambda>n. node_id n = ''T'' @ number_to_string (trackId t)) (nodes bucket) =
            [\<lparr>node_id = ''T'' @ number_to_string (trackId t), node_label = [],
              node_group = ''tracks''\<rparr>] \<and>
          filter (\<lambda>e. edge_from e = ''T'' @ number_to_string (trackId t)) (edges bucket) =
            map (\<lambda>g. \<lparr>edge_from = ''T'' @ number_to_string (trackId t), edge_to = ''C'' @ g\<rparr>)
              (tag # rest)
      | _ \<Rightarrow>
          filter (\<lambda>n. node_id n = ''T'' @ number_to_string (trackId t)) (nodes bucket) = [] \<and>
          filter (\<lambda>e. edge_from e = ''T'' @ number_to_string (trackId t)) (edges bucket) = [])"
proof
  fix t assume "t \<in> set (tracks bucket)"
  from track_contribution [OF bucket_trackIds_distinct this]
  show "case tags t of
        Some (tag # rest) \<Rightarrow>
          filter (\<lambda>n. node_id n = ''T'' @ number_to_string (trackId t)) (nodes bucket) =
            [\<lparr>node_id = ''T'' @ number_to_string (trackId t), node_label = [],
              node_group = ''tracks''\<rparr>] \<and>
          filter (\<lambda>e. edge_from e = ''T'' @ number_to_string (trackId t)) (edges bucket) =
            map (\<lambda>g. \<lparr>edge_from = ''T'' @ number_to_string (trackId t), edge_to = ''C'' @ g\<rparr>)
              (tag # rest)
      | _ \<Rightarrow>
          filter (\<lambda>n. node_id n = ''T'' @ number_to_string (trackId t)) (nodes bucket) = [] \<and>
          filter (\<lambda>e. edge_from e = ''T'' @ number_to_string (trackId t)) (edges bucket) = []"
    by (simp add: track_node_id_def nodes_of_track_def edges_of_track_def tag_list_def
        split: option.split list.split)
qed

theorem C1_track_entries_witness:
  "\<lparr>trackId = 340187504, tags = Some [''funky'', ''future''], track_note = None\<rparr> \<in> set (tracks bucket) \<and>
   filter (\<lambda>n. node_id n = ''T340187504'') (nodes bucket) =
     [\<lparr>node_id = ''T340187504'', node_label = [], node_group = ''tracks''\<rparr>] \<and>
   filter (\<lambda>e. edge_from e = ''T340187504'') (edges bucket) =
     [\<lparr>edge_from = ''T340187504'', edge_to = ''Cfunky''\<rparr>,
      \<lparr>edge_from = ''T340187504'', edge_to = ''Cfuture''\<rparr>] \<and>
   \<lparr>trackId = 284266335, tags = Some [], track_note = None\<rparr> \<in> set (tracks bucket) \<and>
   filter (\<lambda>n. node_id n = ''T284266335'') (nodes bucket) = [] \<and>
   filter (\<lambda>e. edge_from e = ''T284266335'') (edges bucket) = [] \<and>
   \<lparr>trackId = 480700689, tags = None, track_note = None\<rparr> \<in> set (tracks bucket) \<and>
   filter (\<lambda>n. node_id n = ''T480700689'') (nodes bucket) = [] \<and>
   filter (\<lambda>e. edge_from e = ''T480700689'') (edges bucket) = []"
proof -
  let ?a = "\<lparr>trackId = 340187504, tags = Some [''funky'', ''future''], track_note = None\<rparr>"
  let ?b = "\<lparr>trackId = 284266335, tags = Some [], track_note = None\<rparr>"
  let ?c = "\<lparr>trackId = 480700689, tags = None, track_note = None\<rparr>"
  have mem: "?a \<in> set (tracks bucket)" "?b \<in> set (tracks bucket)" "?c \<in> set (tracks bucket)"
    by code_simp+
  have str: "number_to_string 340187504 = ''340187504''"
    "number_to_string 284266335 = ''284266335''" "number_to_string 480700689 = ''480700689''"
    by code_simp+
  from C1_track_entries [THEN bspec, OF mem(1)] C1_track_entries [THEN bspec, OF mem(2)]
    C1_track_entries [THEN bspec, OF mem(3)] mem
  show ?thesis by (simp add: str)
qed

text \<open>
  C2. For every tag of \<^verbatim>\<open>bucket.tags\<close>, and so for every tag that a track carries, the node
  list holds exactly one node with the identifier \<^verbatim>\<open>C\<close> followed by the tag; its group is
  \<^verbatim>\<open>tags\<close> and its label is the tag. This stays so whatever the list of tracks is.
\<close>

theorem C2_tag_nodes:
  "(\<forall>tag \<in> set (bucket_tags bucket) \<union> (\<Union>t \<in> set (tracks bucket). set (tag_list t)).
      filter (\<lambda>n. node_id n = ''C'' @ tag) (nodes bucket) =
        [\<lparr>node_id = ''C'' @ tag, node_label = tag, node_group = ''tags''\<rparr>]) \<and>
   (\<forall>ts. \<forall>tag \<in> set (bucket_tags bucket).
      filter (\<lambda>n. node_id n = ''C'' @ tag) (nodes (bucket\<lparr>tracks := ts\<rparr>)) =
        [\<lparr>node_id = ''C'' @ tag, node_label = tag, node_group = ''tags''\<rparr>])"
proof (intro conjI ballI allI)
  fix tag assume "tag \<in> set (bucket_tags bucket) \<union> (\<Union>t \<in> set (tracks bucket). set (tag_list t))"
  with bucket_tag_lists_known have "tag \<in> set (bucket_tags bucket)" by blast
  from tag_contribution [OF bucket_tags_distinct this]
  show "filter (\<lambda>n. node_id n = ''C'' @ tag) (nodes bucket) =
        [\<lparr>node_id = ''C'' @ tag, node_label = tag, node_group = ''tags''\<rparr>]"
    by (simp add: tag_node_def)
next
  fix ts tag assume "tag \<in> set (bucket_tags bucket)"
  with bucket_tags_distinct tag_contribution [of "bucket\<lparr>tracks := ts\<rparr>" tag]
  show "filter (\<lambda>n. node_id n = ''C'' @ tag) (nodes (bucket\<lparr>tracks := ts\<rparr>)) =
        [\<lparr>node_id = ''C'' @ tag, node_label = tag, node_group = ''tags''\<rparr>]"
    by (simp add: tag_node_def)
qed

theorem C2_tag_nodes_witness:
  "''electronic'' \<in> set (bucket_tags bucket) \<and>
   filter (\<lambda>n. node_id n = ''Celectronic'') (nodes bucket) =
     [\<lparr>node_id = ''Celectronic'', node_label = ''electronic'', node_group = ''tags''\<rparr>] \<and>
   filter (\<lambda>n. node_id n = ''Celectronic'') (nodes (bucket\<lparr>tracks := []\<rparr>)) =
     [\<lparr>node_id = ''Celectronic'', node_label = ''electronic'', node_group = ''tags''\<rparr>]"
proof -
  have mem: "''electronic'' \<in> set (bucket_tags bucket)"
    by code_simp
  then have mem': "''electronic'' \<in> set (bucket_tags bucket) \<union> (\<Union>t \<in> set (tracks bucket). set (tag_list t))"
    by blast
  from C2_tag_nodes [THEN conjunct1, THEN bspec, OF mem']
    C2_tag_nodes [THEN conjunct2, THEN spec, THEN bspec, OF mem, of "[]"] mem
  show ?thesis by simp
qed

text \<open>
  C3. Every node of the node list has an identifier made of the letter of its group (\<^verbatim>\<open>T\<close>
  for \<^verbatim>\<open>tracks\<close>, \<^verbatim>\<open>C\<close> for \<^verbatim>\<open>tags\<close>) followed by the underlying id (the decimal track id,
  the tag), and the identifiers of the node list are pairwise distinct.
\<close>

theorem C3_node_ids:
  "(\<forall>n \<in> set (nodes bucket).
      (node_group n = ''tracks'' \<and>
         (\<exists>t \<in> set (tracks bucket). node_id n = ''T'' @ number_to_string (trackId t))) \<or>
      (node_group n = ''tags'' \<and>
         (\<exists>tag \<in> set (bucket_tags bucket). node_id n = ''C'' @ tag))) \<and>
   distinct (map node_id (nodes bucket))"
proof
  show "\<forall>n \<in> set (nodes bucket).
      (node_group n = ''tracks'' \<and>
         (\<exists>t \<in> set (tracks bucket). node_id n = ''T'' @ number_to_string (trackId t))) \<or>
      (node_group n = ''tags'' \<and>
         (\<exists>tag \<in> set (bucket_tags bucket). node_id n = ''C'' @ tag))"
    unfolding set_nodes by (auto simp: track_node_id_def)
  have "distinct (map trackId (filter (\<lambda>t. tag_list t \<noteq> []) (tracks bucket)))"
    using bucket_trackIds_distinct by (rule distinct_map_filter)
  then show "distinct (map node_id (nodes bucket))"
    using bucket_tags_distinct by (rule distinct_node_ids)
qed

theorem C3_node_ids_witness:
  "\<lparr>node_id = ''T340187504'', node_label = [], node_group = ''tracks''\<rparr> \<in> set (nodes bucket) \<and>
   \<lparr>node_id = ''Cfunky'', node_label = ''funky'', node_group = ''tags''\<rparr> \<in> set (nodes bucket) \<and>
   ''T340187504'' \<in> (\<lambda>t. ''T'' @ number_to_string (trackId t)) ` set (tracks bucket) \<and>
   length (nodes bucket) = 71 \<and> card (node_id ` set (nodes bucket)) = 71"
proof -
  let ?t = "\<lparr>trackId = 340187504, tags = Some [''funky'', ''future''], track_note = None\<rparr>"
  have t: "?t \<in> set (tracks bucket)" and g: "''funky'' \<in> set (bucket_tags bucket)"
    and s: "track_node_id ?t = ''T340187504''"
    by code_simp+
  have "tag_list ?t \<noteq> []" by (simp add: tag_list_def)
  with t have "\<lparr>node_id = track_node_id ?t, node_label = [], node_group = ''tracks''\<rparr> \<in> set (nodes bucket)"
    unfolding set_nodes by blast
  then have m1: "\<lparr>node_id = ''T340187504'', node_label = [], node_group = ''tracks''\<rparr> \<in> set (nodes bucket)"
    by (simp only: s)
  from g have "tag_node ''funky'' \<in> set (nodes bucket)"
    unfolding set_nodes by blast
  then have m2: "\<lparr>node_id = ''Cfunky'', node_label = ''funky'', node_group = ''tags''\<rparr> \<in> set (nodes bucket)"
    by (simp add: tag_node_def)
  from C3_node_ids [THEN conjunct1, THEN bspec, OF m1]
  have i: "''T340187504'' \<in> (\<lambda>t. ''T'' @ number_to_string (trackId t)) ` set (tracks bucket)"
    by auto
  from C3_node_ids have "distinct (map node_id (nodes bucket))" by simp
  then have "card (set (map node_id (nodes bucket))) = length (map node_id (nodes bucket))"
    by (rule distinct_card)
  with bucket_nodes_length m1 m2 i show ?thesis by simp
qed

text \<open>
  C4. Every edge of the edge list goes from a track node to a tag node: its source begins
  with \<^verbatim>\<open>T\<close> and is the identifier of a node in group \<^verbatim>\<open>tracks\<close>, its target begins with \<^verbatim>\<open>C\<close>
  and is the identifier of a node in group \<^verbatim>\<open>tags\<close>, and it stems from a track and one of that
  track's tags. Conversely each pair of a track and one of its tags has exactly one edge.
\<close>

theorem C4_edges:
  "(\<forall>e \<in> set (edges bucket).
      take 1 (edge_from e) = ''T'' \<and>
      (\<exists>n \<in> set (nodes bucket). node_id n = edge_from e \<and> node_group n = ''tracks'') \<and>
      take 1 (edge_to e) = ''C'' \<and>
      (\<exists>n \<in> set (nodes bucket). node_id n = edge_to e \<and> node_group n = ''tags'') \<and>
      (\<exists>t \<in> set (tracks bucket). \<exists>tag \<in> set (tag_list t).
         e = \<lparr>edge_from = ''T'' @ number_to_string (trackId t), edge_to = ''C'' @ tag\<rparr>)) \<and>
   (\<forall>t \<in> set (tracks bucket). \<forall>tag \<in> set (tag_list t).
      length (filter (\<lambda>e. e = \<lparr>edge_from = ''T'' @ number_to_string (trackId t),
                                 edge_to = ''C'' @ tag\<rparr>) (edges bucket)) = 1)"
proof (intro conjI ballI)
  fix e assume "e \<in> set (edges bucket)"
  then obtain t g where t: "t \<in> set (tracks bucket)" and g: "g \<in> set (tag_list t)"
    and e: "e = \<lparr>edge_from = track_node_id t, edge_to = ''C'' @ g\<rparr>"
    unfolding set_edges by blast
  from g have ne: "tag_list t \<noteq> []" by auto
  from t g bucket_tag_lists_known have g': "g \<in> set (bucket_tags bucket)" by blast
  show "take 1 (edge_from e) = ''T''" using e by (simp add: track_node_id_def)
  show "take 1 (edge_to e) = ''C''" using e by simp
  from t ne have "\<lparr>node_id = track_node_id t, node_label = [], node_group = ''tracks''\<rparr> \<in> set (nodes bucket)"
    unfolding set_nodes by blast
  then show "\<exists>n \<in> set (nodes bucket). node_id n = edge_from e \<and> node_group n = ''tracks''"
    using e by force
  from g' have "tag_node g \<in> set (nodes bucket)"
    unfolding set_nodes by blast
  then show "\<exists>n \<in> set (nodes bucket). node_id n = edge_to e \<and> node_group n = ''tags''"
    using e by force
  from t g e show "\<exists>t \<in> set (tracks bucket). \<exists>tag \<in> set (tag_list t).
         e = \<lparr>edge_from = ''T'' @ number_to_string (trackId t), edge_to = ''C'' @ tag\<rparr>"
    by (auto simp: track_node_id_def)
next
  fix t tag assume t: "t \<in> set (tracks bucket)" and g: "tag \<in> set (tag_list t)"
  from t bucket_tag_lists_distinct have "distinct (tag_list t)" by blast
  from one_edge_per_association [OF bucket_trackIds_distinct t this g]
  show "length (filter (\<lambda>e. e = \<lparr>edge_from = ''T'' @ number_to_string (trackId t),
                                 edge_to = ''C'' @ tag\<rparr>) (edges bucket)) = 1"
    by (simp add: track_node_id_def)
qed

theorem C4_edges_witness:
  "\<lparr>edge_from = ''T340187504'', edge_to = ''Cfuture''\<rparr> \<in> set (edges bucket) \<and>
   ''T340187504'' \<in> node_id ` {n \<in> set (nodes bucket). node_group n = ''tracks''} \<and>
   ''Cfuture'' \<in> node_id ` {n \<in> set (nodes bucket). node_group n = ''tags''} \<and>
   length (filter (\<lambda>e. e = \<lparr>edge_from = ''T340187504'', edge_to = ''Cfuture''\<rparr>) (edges bucket)) = 1"
proof -
  let ?t = "\<lparr>trackId = 340187504, tags = Some [''funky'', ''future''], track_note = None\<rparr>"
  have t: "?t \<in> set (tracks bucket)" by code_simp
  have g: "''future'' \<in> set (tag_list ?t)" by (simp add: tag_list_def)
  have str: "number_to_string 340187504 = ''340187504''" by code_simp
  from t g have "\<lparr>edge_from = track_node_id ?t, edge_to = ''C'' @ ''future''\<rparr> \<in> set (edges bucket)"
    unfolding set_edges by blast
  then have e: "\<lparr>edge_from = ''T340187504'', edge_to = ''Cfuture''\<rparr> \<in> set (edges bucket)"
    by (simp add: track_node_id_def str)
  from C4_edges [THEN conjunct1, THEN bspec, OF e]
  have "''T340187504'' \<in> node_id ` {n \<in> set (nodes bucket). node_group n = ''tracks''}"
    and "''Cfuture'' \<in> node_id ` {n \<in> set (nodes bucket). node_group n = ''tags''}"
    by (auto simp: image_iff)
  moreover from C4_edges [THEN conjunct2, THEN bspec, OF t, THEN bspec, OF g]
  have "length (filter (\<lambda>e. e = \<lparr>edge_from = ''T340187504'', edge_to = ''Cfuture''\<rparr>) (edges bucket)) = 1"
    by (simp add: str)
  ultimately show ?thesis using e by simp
qed

section \<open>Properties of the program's steps\<close>

subsection \<open>Outcomes and loops\<close>

lemma final_and_then_inv:
  assumes "\<And>s. proj (final (f s)) = proj s"
  shows "proj (final (and_then r f)) = proj (final r)"
  using assms by (cases r) simp_all

lemma forEach_inv:
  assumes "\<And>x s. proj (final (f x s)) = proj s"
  shows "proj (final (forEach f xs s)) = proj s"
proof (induction xs arbitrary: s)
  case Nil
  show ?case by simp
next
  case (Cons x xs)
  show ?case
  proof (cases "f x s")
    case (Done s')
    with assms [of x s] Cons.IH [of s'] show ?thesis by simp
  next
    case (Threw e s')
    with assms [of x s] show ?thesis by simp
  qed
qed

lemma length_modify [simp]: "length (modify a f h) = length h"
  by (simp add: modify_def)

lemma map_modify:
  "(\<And>x. g (f x) = g x) \<Longrightarrow> map g (modify a f h) = map g h"
  by (simp add: modify_def map_update list_update_same_conv)

subsection \<open>The status string\<close>

lemma join_snoc: "xs \<noteq> [] \<Longrightarrow> join sep (xs @ [x]) = join sep xs @ sep @ x"
proof (induction xs)
  case Nil
  then show ?case by simp
next
  case (Cons y ys)
  then show ?case by (cases ys) simp_all
qed

lemma join_eq_Nil: "\<forall>x \<in> set xs. x \<noteq> [] \<Longrightarrow> join sep xs = [] \<longleftrightarrow> xs = []"
  by (induction sep xs rule: join.induct) simp_all

lemma hyphen_joined_eq_Nil: "hyphen_joined vs = [] \<longleftrightarrow> filter (\<lambda>v. v \<noteq> []) vs = []"
  unfolding hyphen_joined_def by (rule join_eq_Nil) simp

lemma hyphen_joined_snoc:
  "hyphen_joined (vs @ [v]) =
     (if hyphen_joined vs \<noteq> [] \<and> v \<noteq> [] then hyphen_joined vs @ '' - '' else hyphen_joined vs) @ v"
proof (cases "v = []")
  case True
  then show ?thesis by (simp add: hyphen_joined_def)
next
  case False
  show ?thesis
  proof (cases "filter (\<lambda>v. v \<noteq> []) vs = []")
    case True
    with False show ?thesis by (simp add: hyphen_joined_def)
  next
    case ne: False
    then have "hyphen_joined vs \<noteq> []" by (simp add: hyphen_joined_eq_Nil)
    with False ne show ?thesis by (simp add: hyphen_joined_def join_snoc)
  qed
qed

lemma printInfo_str_eq: "printInfo_str info = hyphen_joined (map snd info)"
proof (induction info rule: rev_induct)
  case Nil
  show ?case by (simp add: printInfo_str_def hyphen_joined_def)
next
  case (snoc p ps)
  then show ?case by (simp add: printInfo_str_def hyphen_joined_snoc)
qed

subsection \<open>The document\<close>

lemma getElementById_Some:
  "getElementById es i = Some k \<Longrightarrow> k < length es \<and> elem_id (es ! k) = Some i"
  by (induction es arbitrary: k) (auto split: if_splits)

lemma getElementById_None: "getElementById es i = None \<longleftrightarrow> (\<forall>e \<in> set es. elem_id e \<noteq> Some i)"
  by (induction es) auto

lemma getElementById_append_fresh:
  "\<forall>e \<in> set es. elem_id e \<noteq> Some i \<Longrightarrow> elem_id x = Some i \<Longrightarrow>
   getElementById (es @ [x]) i = Some (length es)"
  by (induction es) auto

lemma getElementById_snoc_defined:
  "elem_id x = Some i \<Longrightarrow> getElementById (es @ [x]) i \<noteq> None"
  by (simp add: getElementById_None)

subsection \<open>What the steps leave alone\<close>

lemma label_step_frame:
  "graph (final (label_step a st)) = graph st"
  "that (final (label_step a st)) = that st"
  "body (final (label_step a st)) = body st"
  "info_text (final (label_step a st)) = info_text st"
  "trace (final (label_step a st)) = trace st"
  "object_selection (final (label_step a st)) = object_selection st"
  "stats (final (label_step a st)) = stats st"
  "map gnode_id (heap (final (label_step a st))) = map gnode_id (heap st)"
  by (simp_all add: label_step_def Let_def map_modify split: option.split)

lemma unlabel_step_frame:
  "graph (final (unlabel_step a st)) = graph st"
  "that (final (unlabel_step a st)) = that st"
  "body (final (unlabel_step a st)) = body st"
  "info_text (final (unlabel_step a st)) = info_text st"
  "trace (final (unlabel_step a st)) = trace st"
  "object_selection (final (unlabel_step a st)) = object_selection st"
  "stats (final (unlabel_step a st)) = stats st"
  "map gnode_id (heap (final (unlabel_step a st))) = map gnode_id (heap st)"
  by (simp_all add: unlabel_step_def Let_def map_modify split: option.split)

lemma labels_loop_frame:
  "graph (final (forEach (if b then label_step else unlabel_step) as st)) = graph st"
  "that (final (forEach (if b then label_step else unlabel_step) as st)) = that st"
  "body (final (forEach (if b then label_step else unlabel_step) as st)) = body st"
  "info_text (final (forEach (if b then label_step else unlabel_step) as st)) = info_text st"
  "trace (final (forEach (if b then label_step else unlabel_step) as st)) = trace st"
  "object_selection (final (forEach (if b then label_step else unlabel_step) as st)) =
     object_selection st"
  "stats (final (forEach (if b then label_step else unlabel_step) as st)) = stats st"
  "map gnode_id (heap (final (forEach (if b then label_step else unlabel_step) as st))) =
     map gnode_id (heap st)"
  by (rule forEach_inv, simp add: label_step_frame unlabel_step_frame)+

lemma fold_selected_frame:
  "graph (fold selected sel st) = graph st"
  "that (fold selected sel st) = that st"
  "body (fold selected sel st) = body st"
  "heap (fold selected sel st) = heap st"
  "trace (fold selected sel st) = trace st"
  "object_selection (fold selected sel st) = object_selection st"
  "stats (fold selected sel st) = stats st"
  by (induction sel arbitrary: st; simp add: selected_def split: option.split)+

lemma get_property_set_same [simp]: "get_property (set_property k v ps) k = Some v"
  by (induction ps) (simp_all add: get_property_def)

lemma get_property_set_other [simp]:
  "k' \<noteq> k \<Longrightarrow> get_property (set_property k v ps) k' = get_property ps k'"
  by (induction ps) (simp_all add: get_property_def)

lemma get_property_delete_other [simp]:
  "k' \<noteq> k \<Longrightarrow> get_property (delete_property k ps) k' = get_property ps k'"
  by (induction ps) (simp_all add: get_property_def delete_property_def)

lemma fold_selected_other:
  "k \<noteq> ''select'' \<Longrightarrow>
   get_property (info_text (fold selected sel st)) k = get_property (info_text st) k"
  by (induction sel arbitrary: st) (simp_all add: selected_def split: option.split)

lemma render_scene_frame:
  "graph (final (render_scene sel st)) = graph st"
  "that (final (render_scene sel st)) = that st"
  "body (final (render_scene sel st)) = body st"
  "heap (final (render_scene sel st)) = heap st"
  "object_selection (final (render_scene sel st)) = object_selection st"
  "stats (final (render_scene sel st)) = stats st"
  "count_list (trace (final (render_scene sel st))) Generate = count_list (trace st) Generate"
  by (simp_all add: render_scene_def render_selection_def update_stats_def fold_selected_frame)

lemma render_scene_other:
  "k \<noteq> ''select'' \<Longrightarrow>
   get_property (info_text (final (render_scene sel st))) k = get_property (info_text st) k"
  by (simp add: render_scene_def render_selection_def update_stats_def fold_selected_other)

lemma render_scene_completes:
  "overlays_ready st \<Longrightarrow> completes (render_scene sel st)"
  by (simp add: overlays_ready_def render_scene_def render_selection_def update_stats_def
      fold_selected_frame split: if_splits)

text \<open>\<^verbatim>\<open>render\<close> with its first statement spelt out.\<close>

lemma render_eq:
  "render ext sel st =
     and_then
       (forEach (if show_labels (that st) then label_step else unlabel_step)
          (graph_nodes ext (if layout_finished ext (graph st) then graph st
                            else layout_generate ext (graph st)))
          (if \<not> layout_finished ext (graph st) then
             st\<lparr>info_text := set_property ''calc'' calculating (info_text st),
                graph := layout_generate ext (graph st),
                trace := trace st @ [Generate]\<rparr>
           else st\<lparr>info_text := set_property ''calc'' [] (info_text st)\<rparr>))
       (render_scene sel)"
  by (simp add: render_def Let_def)

lemma render_graph:
  "graph (final (render ext sel st)) =
     (if layout_finished ext (graph st) then graph st else layout_generate ext (graph st))"
  unfolding render_eq
  by (subst final_and_then_inv [where proj = graph])
    (simp_all add: render_scene_frame labels_loop_frame)

lemma render_that: "that (final (render ext sel st)) = that st"
  unfolding render_eq
  by (subst final_and_then_inv [where proj = that])
    (simp_all add: render_scene_frame labels_loop_frame)

lemma render_body: "body (final (render ext sel st)) = body st"
  unfolding render_eq
  by (subst final_and_then_inv [where proj = body])
    (simp_all add: render_scene_frame labels_loop_frame)

lemma render_object_selection:
  "object_selection (final (render ext sel st)) = object_selection st"
  unfolding render_eq
  by (subst final_and_then_inv [where proj = object_selection])
    (simp_all add: render_scene_frame labels_loop_frame)

lemma render_stats: "stats (final (render ext sel st)) = stats st"
  unfolding render_eq
  by (subst final_and_then_inv [where proj = stats])
    (simp_all add: render_scene_frame labels_loop_frame)

lemma render_heap_ids: "map gnode_id (heap (final (render ext sel st))) = map gnode_id (heap st)"
  unfolding render_eq
  by (subst final_and_then_inv [where proj = "\<lambda>s. map gnode_id (heap s)"])
    (simp_all add: render_scene_frame labels_loop_frame)

lemma render_calc:
  "get_property (info_text (final (render ext sel st))) ''calc'' =
     Some (if layout_finished ext (graph st) then [] else calculating)"
  unfolding render_eq
  by (subst final_and_then_inv [where proj = "\<lambda>s. get_property (info_text s) ''calc''"])
    (simp_all add: render_scene_other labels_loop_frame)

lemma render_nodes_property:
  "get_property (info_text (final (render ext sel st))) ''nodes'' =
     get_property (info_text st) ''nodes''"
  unfolding render_eq
  by (subst final_and_then_inv [where proj = "\<lambda>s. get_property (info_text s) ''nodes''"])
    (simp_all add: render_scene_other labels_loop_frame)

lemma render_generate_count:
  "count_list (trace (final (render ext sel st))) Generate =
     count_list (trace st) Generate + (if layout_finished ext (graph st) then 0 else 1)"
  unfolding render_eq
  by (subst final_and_then_inv [where proj = "\<lambda>s. count_list (trace s) Generate"])
    (simp_all add: render_scene_frame labels_loop_frame)

lemma and_then_Done:
  "and_then r f = Done s' \<Longrightarrow> \<exists>s1. r = Done s1 \<and> f s1 = Done s'"
  by (cases r) simp_all

lemma render_Done_frame:
  assumes "render ext sel st = Done st'"
  shows "that st' = that st" and "body st' = body st"
  using render_that [of ext sel st] render_body [of ext sel st] assms by simp_all

lemma printInfo_Some:
  assumes "getElementById (body st) ''graph-info'' = Some k"
  shows "printInfo st =
           Done (st\<lparr>body := (body st)[k := (body st ! k)\<lparr>innerHTML := hyphen_joined (map snd (info_text st))\<rparr>]\<rparr>)"
  using assms getElementById_Some [OF assms]
  by (simp add: printInfo_def modify_def printInfo_str_eq)

lemma init_body:
  "body (init ext st) =
     body st @ [\<lparr>elem_tag = ''canvas'', elem_id = None, innerHTML = []\<rparr>] @
     (if show_stats (that st) then [stats_domElement ext] else []) @
     (if show_info (that st)
      then [\<lparr>elem_tag = ''div'', elem_id = Some ''graph-info'', innerHTML = []\<rparr>] else [])"
  by (simp add: init_def Let_def)

lemma initial_state_fields:
  "that (initial_state ext document (Some opts)) = SimpleGraph_this opts"
  "body (initial_state ext document (Some opts)) = document"
  "graph (initial_state ext document (Some opts)) = new_Graph ext (SimpleGraph_Graph_options opts)"
  by (simp_all add: initial_state_def)

lemma show_info_this: "opt_showInfo opts = Some True \<Longrightarrow> show_info (SimpleGraph_this opts)"
  by (simp add: SimpleGraph_this_def or_bool_def)

text \<open>
  C5. With the \<^verbatim>\<open>limit\<close> option omitted, the property \<^verbatim>\<open>this.limit\<close> is 10, but the limit
  given to the graph constructor is \<^verbatim>\<open>options.limit\<close> itself, which is \<^verbatim>\<open>undefined\<close>: the
  graph is not capped at 10.
\<close>

theorem C5_limit_not_passed:
  "limit (SimpleGraph_this no_options) = 10 \<and>
   SimpleGraph_Graph_options no_options = None \<and>
   graph (initial_state ext document None) = new_Graph ext None \<and>
   graph (initial_state ext document (Some no_options)) = new_Graph ext None \<and>
   dg_limit (graph (initial_state demo [] None)) = None"
  by (simp add: SimpleGraph_this_def SimpleGraph_Graph_options_def no_options_def or_number_def
      initial_state_def demo_def)

text \<open>
  C9. One step of \<^verbatim>\<open>render\<close> calls \<^verbatim>\<open>graph.layout.generate()\<close> once when
  \<^verbatim>\<open>graph.layout.finished\<close> is false and not at all when it is true, and it leaves
  \<^verbatim>\<open>info_text.calc\<close> equal to the calculating message in the first case and to the empty
  string in the second, whether or not the rest of the step throws.
\<close>

theorem C9_render_generate:
  "count_list (trace (final (render ext sel st))) Generate =
     count_list (trace st) Generate + (if layout_finished ext (graph st) then 0 else 1) \<and>
   graph (final (render ext sel st)) =
     (if layout_finished ext (graph st) then graph st else layout_generate ext (graph st)) \<and>
   get_property (info_text (final (render ext sel st))) ''calc'' =
     Some (if layout_finished ext (graph st) then [] else calculating)"
  by (simp add: render_generate_count render_graph render_calc)

theorem C9_render_generate_witness:
  "\<not> layout_finished demo (graph sample_state) \<and>
   count_list (trace (final (render demo [] sample_state))) Generate = 1 \<and>
   get_property (info_text (final (render demo [] sample_state))) ''calc'' = Some calculating \<and>
   layout_finished demo (graph (final (render demo [] sample_state))) \<and>
   count_list (trace (final (render demo [] (final (render demo [] sample_state))))) Generate = 1 \<and>
   get_property (info_text (final (render demo [] (final (render demo [] sample_state))))) ''calc'' = Some []"
proof -
  have a: "\<not> layout_finished demo (graph sample_state)"
    and b: "count_list (trace sample_state) Generate = 0"
    and c: "layout_finished demo (layout_generate demo (graph sample_state))"
    by code_simp+
  from C9_render_generate [of demo "[]" sample_state]
    C9_render_generate [of demo "[]" "final (render demo [] sample_state)"] a b c
  show ?thesis by simp
qed

subsection \<open>Frames that complete\<close>

lemma forEach_completes:
  assumes "\<And>x s. x \<in> set xs \<Longrightarrow> I s \<Longrightarrow> completes (f x s) \<and> I (final (f x s))"
    and "I s"
  shows "completes (forEach f xs s) \<and> I (final (forEach f xs s))"
  using assms
proof (induction xs arbitrary: s)
  case Nil
  then show ?case by simp
next
  case (Cons x xs)
  have "x \<in> set (x # xs)" by simp
  from Cons.prems(1) [OF this Cons.prems(2)]
  have c: "completes (f x s)" and i: "I (final (f x s))" by blast+
  from c obtain s' where s': "f x s = Done s'" by (cases "f x s") simp_all
  from i have i': "I s'" unfolding s' by simp
  have "completes (forEach f xs s') \<and> I (final (forEach f xs s'))"
  proof (rule Cons.IH)
    fix y t assume "y \<in> set xs" and t: "I t"
    then have "y \<in> set (x # xs)" by simp
    from Cons.prems(1) [OF this t] show "completes (f y t) \<and> I (final (f y t))" .
  qed (rule i')
  then show ?case unfolding forEach.simps s' by simp
qed

lemma has_draw_object_cong:
  "map data_draw_object h' = map data_draw_object h \<Longrightarrow> has_draw_object h' a = has_draw_object h a"
proof -
  assume m: "map data_draw_object h' = map data_draw_object h"
  then have l: "length h' = length h" by (rule map_eq_imp_length_eq)
  show ?thesis
  proof (cases "a < length h")
    case True
    from True l have "data_draw_object (h' ! a) = map data_draw_object h' ! a"
      and "data_draw_object (h ! a) = map data_draw_object h ! a"
      by simp_all
    with m have "data_draw_object (h' ! a) = data_draw_object (h ! a)"
      by simp
    with True l show ?thesis by (simp add: has_draw_object_def lookup_def)
  next
    case False
    with l show ?thesis by (simp add: has_draw_object_def lookup_def)
  qed
qed

lemma label_step_draw_objects:
  "map data_draw_object (heap (final (label_step a st))) = map data_draw_object (heap st)"
  by (simp add: label_step_def Let_def map_modify split: option.split)

lemma unlabel_step_draw_objects:
  "map data_draw_object (heap (final (unlabel_step a st))) = map data_draw_object (heap st)"
  by (simp add: unlabel_step_def Let_def map_modify split: option.split)

lemma has_draw_object_lookup:
  "has_draw_object h a \<Longrightarrow> \<exists>n d. lookup h a = Some n \<and> data_draw_object n = Some d"
  by (auto simp: has_draw_object_def split: option.splits)

lemma label_step_completes:
  assumes "has_draw_object (heap st) a"
  shows "completes (label_step a st)"
proof -
  from has_draw_object_lookup [OF assms] obtain n d where
    "lookup (heap st) a = Some n" "data_draw_object n = Some d" by blast
  then show ?thesis
    by (cases "data_label_object n") (simp_all add: label_step_def Let_def)
qed

lemma unlabel_step_completes:
  assumes "has_draw_object (heap st) a"
  shows "completes (unlabel_step a st)"
proof -
  from has_draw_object_lookup [OF assms] obtain n d where
    "lookup (heap st) a = Some n" "data_draw_object n = Some d" by blast
  then show ?thesis
    by (cases "data_label_object n") (simp_all add: unlabel_step_def)
qed

lemma labels_loop_completes:
  fixes st :: "'g state"
  assumes "list_all (has_draw_object (heap st)) as"
  shows "completes (forEach (if b then label_step else unlabel_step) as st) \<and>
         map data_draw_object (heap (final (forEach (if b then label_step else unlabel_step) as st))) =
           map data_draw_object (heap st)"
proof -
  let ?I = "\<lambda>s :: 'g state. map data_draw_object (heap s) = map data_draw_object (heap st)"
  let ?f = "(if b then label_step else unlabel_step) :: addr \<Rightarrow> 'g state \<Rightarrow> 'g state outcome"
  have step: "\<And>x s. x \<in> set as \<Longrightarrow> ?I s \<Longrightarrow> completes (?f x s) \<and> ?I (final (?f x s))"
  proof -
    fix x and s :: "'g state"
    assume x: "x \<in> set as" and s: "?I s"
    from assms x have "has_draw_object (heap st) x" by (simp add: list_all_iff)
    then have hx: "has_draw_object (heap s) x" by (simp only: has_draw_object_cong [OF s])
    show "completes (?f x s) \<and> ?I (final (?f x s))"
    proof (cases b)
      case True
      with hx s show ?thesis
        by (simp add: label_step_completes label_step_draw_objects)
    next
      case False
      with hx s show ?thesis
        by (simp add: unlabel_step_completes unlabel_step_draw_objects)
    qed
  qed
  have "?I st" by simp
  with step show ?thesis by (rule forEach_completes)
qed

lemma labels_loop_draw_objects:
  "map data_draw_object (heap (final (forEach (if b then label_step else unlabel_step) as st))) =
     map data_draw_object (heap st)"
  by (rule forEach_inv) (simp add: label_step_draw_objects unlabel_step_draw_objects)

lemma render_draw_objects:
  "map data_draw_object (heap (final (render ext sel st))) = map data_draw_object (heap st)"
  unfolding render_eq
  by (subst final_and_then_inv [where proj = "\<lambda>s. map data_draw_object (heap s)"])
    (simp_all add: render_scene_frame labels_loop_draw_objects)

lemma render_overlays_ready: "overlays_ready (final (render ext sel st)) = overlays_ready st"
  by (simp add: overlays_ready_def render_that render_object_selection render_stats)

lemma render_all_drawn:
  assumes "\<forall>g. graph_nodes ext (layout_generate ext g) = graph_nodes ext g"
  shows "all_drawn ext (final (render ext sel st)) = all_drawn ext st"
proof -
  have "\<And>a. has_draw_object (heap (final (render ext sel st))) a = has_draw_object (heap st) a"
    by (rule has_draw_object_cong) (rule render_draw_objects)
  moreover have "graph_nodes ext (graph (final (render ext sel st))) = graph_nodes ext (graph st)"
    using assms by (simp add: render_graph)
  ultimately show ?thesis by (simp add: all_drawn_def list_all_iff)
qed

lemma render_completes:
  assumes "\<forall>g. graph_nodes ext (layout_generate ext g) = graph_nodes ext g"
    and "all_drawn ext st" and "overlays_ready st"
  shows "completes (render ext sel st)"
proof -
  let ?g1 = "if layout_finished ext (graph st) then graph st else layout_generate ext (graph st)"
  let ?st1 = "if \<not> layout_finished ext (graph st) then
             st\<lparr>info_text := set_property ''calc'' calculating (info_text st),
                graph := layout_generate ext (graph st),
                trace := trace st @ [Generate]\<rparr>
           else st\<lparr>info_text := set_property ''calc'' [] (info_text st)\<rparr>"
  let ?loop = "forEach (if show_labels (that st) then label_step else unlabel_step)
                 (graph_nodes ext ?g1) ?st1"
  have n: "graph_nodes ext ?g1 = graph_nodes ext (graph st)"
    using assms(1) by simp
  have h: "heap ?st1 = heap st" by simp
  from assms(2) have "list_all (has_draw_object (heap ?st1)) (graph_nodes ext ?g1)"
    unfolding n h by (simp add: all_drawn_def)
  from labels_loop_completes [OF this, of "show_labels (that st)"]
  have c: "completes ?loop" by simp
  then obtain s2 where s2: "?loop = Done s2" by (cases ?loop) simp_all
  have "that (final ?loop) = that ?st1" "object_selection (final ?loop) = object_selection ?st1"
    "stats (final ?loop) = stats ?st1"
    by (rule labels_loop_frame)+
  with s2 assms(3) have "overlays_ready s2" by (simp add: overlays_ready_def)
  then have "completes (render_scene sel s2)" by (rule render_scene_completes)
  with s2 show ?thesis unfolding render_eq by simp
qed

lemma printInfo_all_drawn: "all_drawn ext (final (printInfo st)) = all_drawn ext st"
  by (simp add: printInfo_def all_drawn_def Let_def split: option.split)

lemma printInfo_overlays_ready: "overlays_ready (final (printInfo st)) = overlays_ready st"
  by (simp add: printInfo_def overlays_ready_def Let_def split: option.split)

lemma animate_completes:
  assumes "\<forall>g. graph_nodes ext (layout_generate ext g) = graph_nodes ext g"
    and "all_drawn ext st" and "overlays_ready st"
    and "show_info (that st) \<longrightarrow> getElementById (body st) ''graph-info'' \<noteq> None"
  shows "completes (animate ext inp st) \<and> all_drawn ext (final (animate ext inp st)) \<and>
         overlays_ready (final (animate ext inp st))"
proof -
  let ?st0 = "st\<lparr>trace := trace st @ [ControlsUpdate]\<rparr>"
  let ?first = "case change inp of None \<Rightarrow> Done ?st0 | Some sel \<Rightarrow> render ext sel ?st0"
  from assms(2) have d0: "all_drawn ext ?st0" by (simp add: all_drawn_def)
  from assms(3) have o0: "overlays_ready ?st0" by (simp add: overlays_ready_def)
  have "completes ?first \<and> all_drawn ext (final ?first) \<and> overlays_ready (final ?first) \<and>
        that (final ?first) = that st \<and> body (final ?first) = body st"
    using d0 o0 render_completes [OF assms(1) d0 o0]
    by (cases "change inp")
      (simp_all add: render_that render_body render_all_drawn [OF assms(1)] render_overlays_ready)
  then obtain st1 where f: "?first = Done st1" and d1: "all_drawn ext st1"
    and o1: "overlays_ready st1" and t1: "that st1 = that st" and b1: "body st1 = body st"
    by (cases ?first) simp_all
  from render_completes [OF assms(1) d1 o1, of "picked inp"]
  obtain st2 where r: "render ext (picked inp) st1 = Done st2"
    by (cases "render ext (picked inp) st1") simp_all
  from render_all_drawn [OF assms(1), of "picked inp" st1] render_overlays_ready [of ext "picked inp" st1]
    d1 o1 r
  have d2: "all_drawn ext st2" and o2: "overlays_ready st2" by simp_all
  from render_Done_frame [OF r] t1 b1 have t2: "that st2 = that st" and b2: "body st2 = body st"
    by simp_all
  let ?last = "if show_info (that st2) then printInfo st2 else Done st2"
  have "completes ?last"
    using assms(4) t2 b2 by (auto simp: printInfo_def Let_def)
  moreover have "all_drawn ext (final ?last)"
    using d2 by (simp add: printInfo_all_drawn)
  moreover have "overlays_ready (final ?last)"
    using o2 by (simp add: printInfo_overlays_ready)
  moreover have "animate ext inp st = ?last"
    using f r unfolding animate_def Let_def by simp
  ultimately show ?thesis by simp
qed

subsection \<open>The graph after construction\<close>

lemma render_contents:
  assumes "\<forall>g. graph_nodes ext (layout_generate ext g) = graph_nodes ext g \<and>
               graph_edges ext (layout_generate ext g) = graph_edges ext g"
  shows "graph_contents ext (final (render ext sel st)) = graph_contents ext st"
  using assms by (simp add: graph_contents_def render_graph render_heap_ids)

lemma printInfo_contents: "graph_contents ext (final (printInfo st)) = graph_contents ext st"
  by (simp add: printInfo_def graph_contents_def Let_def split: option.split)

lemma animate_contents:
  assumes "\<forall>g. graph_nodes ext (layout_generate ext g) = graph_nodes ext g \<and>
               graph_edges ext (layout_generate ext g) = graph_edges ext g"
  shows "graph_contents ext (final (animate ext inp st)) = graph_contents ext st"
proof -
  let ?st0 = "st\<lparr>trace := trace st @ [ControlsUpdate]\<rparr>"
  have last: "\<And>s. graph_contents ext (final (if show_info (that s) then printInfo s else Done s)) =
                  graph_contents ext s"
    by (simp add: printInfo_contents)
  have second: "\<And>s. graph_contents ext
        (final (and_then (render ext (picked inp) s)
                  (\<lambda>st2. if show_info (that st2) then printInfo st2 else Done st2))) =
      graph_contents ext s"
    by (subst final_and_then_inv [where proj = "graph_contents ext", OF last])
      (rule render_contents [OF assms])
  have first: "graph_contents ext
        (final (case change inp of None \<Rightarrow> Done ?st0 | Some sel \<Rightarrow> render ext sel ?st0)) =
      graph_contents ext st"
    by (cases "change inp") (simp_all add: render_contents [OF assms], simp_all add: graph_contents_def)
  show ?thesis
    unfolding animate_def Let_def
    by (subst final_and_then_inv [where proj = "graph_contents ext", OF second]) (rule first)
qed

lemma stop_calculating_contents:
  assumes "\<forall>g. graph_nodes ext (layout_stop_calculating ext g) = graph_nodes ext g \<and>
               graph_edges ext (layout_stop_calculating ext g) = graph_edges ext g"
  shows "graph_contents ext (stop_calculating ext st) = graph_contents ext st"
  using assms by (simp add: stop_calculating_def graph_contents_def)

lemma step_contents:
  assumes "\<forall>g. graph_nodes ext (layout_generate ext g) = graph_nodes ext g \<and>
               graph_edges ext (layout_generate ext g) = graph_edges ext g"
    and "\<forall>g. graph_nodes ext (layout_stop_calculating ext g) = graph_nodes ext g \<and>
               graph_edges ext (layout_stop_calculating ext g) = graph_edges ext g"
  shows "graph_contents ext (step ext ev st) = graph_contents ext st"
  by (cases ev)
    (simp_all add: animate_contents [OF assms(1)] render_contents [OF assms(1)]
      stop_calculating_contents [OF assms(2)], simp add: graph_contents_def)

lemma run_contents:
  assumes "\<forall>g. graph_nodes ext (layout_generate ext g) = graph_nodes ext g \<and>
               graph_edges ext (layout_generate ext g) = graph_edges ext g"
    and "\<forall>g. graph_nodes ext (layout_stop_calculating ext g) = graph_nodes ext g \<and>
               graph_edges ext (layout_stop_calculating ext g) = graph_edges ext g"
  shows "graph_contents ext (run ext evs st) = graph_contents ext st"
  by (induction evs arbitrary: st) (simp_all add: step_contents [OF assms])

text \<open>
  C7. Provided the layout's \<^verbatim>\<open>generate\<close> and \<^verbatim>\<open>stop_calculating\<close> leave the node list and
  the edge list of the graph as they are, so does every operation that runs after the
  construction: \<^verbatim>\<open>render\<close>, \<^verbatim>\<open>animate\<close>, \<^verbatim>\<open>printInfo\<close>, \<^verbatim>\<open>stop_calculating\<close>, and any sequence
  of frames, change events and stop calls. The node objects keep their identifiers and none
  is allocated. This holds also for a step that throws.
\<close>

theorem C7_graph_unchanged:
  assumes "\<forall>g. graph_nodes ext (layout_generate ext g) = graph_nodes ext g \<and>
               graph_edges ext (layout_generate ext g) = graph_edges ext g"
    and "\<forall>g. graph_nodes ext (layout_stop_calculating ext g) = graph_nodes ext g \<and>
               graph_edges ext (layout_stop_calculating ext g) = graph_edges ext g"
  shows "graph_contents ext (final (render ext sel st)) = graph_contents ext st \<and>
         graph_contents ext (final (animate ext inp st)) = graph_contents ext st \<and>
         graph_contents ext (final (printInfo st)) = graph_contents ext st \<and>
         graph_contents ext (stop_calculating ext st) = graph_contents ext st \<and>
         graph_contents ext (run ext evs st) = graph_contents ext st"
  using render_contents [OF assms(1)] animate_contents [OF assms(1)] printInfo_contents
    stop_calculating_contents [OF assms(2)] run_contents [OF assms]
  by simp

theorem C7_graph_unchanged_witness:
  "graph_contents demo
     (run demo [Frame \<lparr>change = Some [Some ''T7''], picked = [None]\<rparr>, Change [], Stop,
                Frame \<lparr>change = None, picked = []\<rparr>] sample_state) =
     ([0, 1, 2], [(0, 1), (0, 2)], [''T7'', ''Ca'', ''Cb'']) \<and>
   graph_contents demo (final (render demo [] sample_state)) =
     ([0, 1, 2], [(0, 1), (0, 2)], [''T7'', ''Ca'', ''Cb'']) \<and>
   trace (final (render demo [] sample_state)) =
     trace sample_state @ [Generate, SelectionRender, RendererRender]"
proof -
  have g: "\<forall>g. graph_nodes demo (layout_generate demo g) = graph_nodes demo g \<and>
               graph_edges demo (layout_generate demo g) = graph_edges demo g"
    and s: "\<forall>g. graph_nodes demo (layout_stop_calculating demo g) = graph_nodes demo g \<and>
               graph_edges demo (layout_stop_calculating demo g) = graph_edges demo g"
    by (simp_all add: demo_def)
  have c: "graph_contents demo sample_state = ([0, 1, 2], [(0, 1), (0, 2)], [''T7'', ''Ca'', ''Cb''])"
    and t: "trace (final (render demo [] sample_state)) =
     trace sample_state @ [Generate, SelectionRender, RendererRender]"
    by code_simp+
  from C7_graph_unchanged [OF g s, of "[]" sample_state]
    C7_graph_unchanged [OF g s, of _ sample_state _
      "[Frame \<lparr>change = Some [Some ''T7''], picked = [None]\<rparr>, Change [], Stop,
        Frame \<lparr>change = None, picked = []\<rparr>]"] c t
  show ?thesis by simp
qed

subsection \<open>The two loops of the construction\<close>

lemma gnode_id_make_node [simp]: "gnode_id (make_node n) = node_id n"
  by (simp add: make_node_def new_Node_def Let_def)

lemma drawNode_valid:
  assumes "a < length (heap st)"
  shows "\<exists>st'. drawNode a st = Done st' \<and> length (heap st') = length (heap st) \<and>
           trace st' = trace st @ [DrawNode a]"
  using assms by (simp add: drawNode_def lookup_def Let_def)

lemma nodes_forEach_body_Done:
  "\<exists>st'. nodes_forEach_body ext n (gvn, st) = Done (gvn(node_id n \<mapsto> length (heap st)), st') \<and>
         length (heap st') = Suc (length (heap st)) \<and>
         (\<exists>cs. trace st' = trace st @ cs \<and> (\<forall>x y. AddEdge x y \<notin> set cs))"
proof -
  let ?a = "length (heap st)"
  let ?st1 = "st\<lparr>heap := heap st @ [make_node n]\<rparr>"
  let ?r = "addNode ext (graph ?st1) ?a (make_node n)"
  let ?st2 = "?st1\<lparr>graph := snd ?r, trace := trace ?st1 @ [AddNode ?a]\<rparr>"
  have body: "nodes_forEach_body ext n (gvn, st) =
      (case (if fst ?r then drawNode ?a ?st2 else Done ?st2) of
         Done st3 \<Rightarrow> Done (gvn(node_id n \<mapsto> ?a), st3)
       | Threw e st3 \<Rightarrow> Threw e (gvn, st3))"
    by (simp add: nodes_forEach_body_def Let_def cong: outcome.case_cong)
  show ?thesis
  proof (cases "fst ?r")
    case True
    have "?a < length (heap ?st2)" by simp
    from drawNode_valid [OF this] obtain st' where
      d: "drawNode ?a ?st2 = Done st'" and l: "length (heap st') = length (heap ?st2)"
      and t: "trace st' = trace ?st2 @ [DrawNode ?a]"
      by blast
    from t have "trace st' = trace st @ [AddNode ?a, DrawNode ?a]" by simp
    moreover have "\<forall>x y. AddEdge x y \<notin> set [AddNode ?a, DrawNode ?a]" by simp
    ultimately have "\<exists>cs. trace st' = trace st @ cs \<and> (\<forall>x y. AddEdge x y \<notin> set cs)"
      by blast
    with True d l show ?thesis
      unfolding body by (intro exI [of _ st']) simp
  next
    case False
    have "trace ?st2 = trace st @ [AddNode ?a]" by simp
    moreover have "\<forall>x y. AddEdge x y \<notin> set [AddNode ?a]" by simp
    ultimately have "\<exists>cs. trace ?st2 = trace st @ cs \<and> (\<forall>x y. AddEdge x y \<notin> set cs)"
      by blast
    with False show ?thesis
      unfolding body by (intro exI [of _ ?st2]) simp
  qed
qed

lemma nodes_loop:
  "\<exists>gvn' st'. forEach (nodes_forEach_body ext) ns (gvn, st) = Done (gvn', st') \<and>
     length (heap st') = length (heap st) + length ns \<and>
     dom gvn' = dom gvn \<union> node_id ` set ns \<and>
     (\<forall>k a. gvn' k = Some a \<longrightarrow> gvn k = Some a \<or> a < length (heap st')) \<and>
     (\<forall>k. k \<notin> node_id ` set ns \<longrightarrow> gvn' k = gvn k) \<and>
     (\<exists>cs. trace st' = trace st @ cs \<and> (\<forall>x y. AddEdge x y \<notin> set cs))"
proof (induction ns arbitrary: gvn st)
  case Nil
  show ?case by simp
next
  case (Cons n ns)
  from nodes_forEach_body_Done [of ext n gvn st] obtain st1 cs1 where
    b: "nodes_forEach_body ext n (gvn, st) = Done (gvn(node_id n \<mapsto> length (heap st)), st1)"
    and l1: "length (heap st1) = Suc (length (heap st))"
    and t1: "trace st1 = trace st @ cs1" and c1: "\<forall>x y. AddEdge x y \<notin> set cs1"
    by blast
  let ?g1 = "gvn(node_id n \<mapsto> length (heap st))"
  from Cons.IH [of ?g1 st1] obtain gvn' st' cs2 where
    f: "forEach (nodes_forEach_body ext) ns (?g1, st1) = Done (gvn', st')"
    and l2: "length (heap st') = length (heap st1) + length ns"
    and d2: "dom gvn' = dom ?g1 \<union> node_id ` set ns"
    and v2: "\<forall>k a. gvn' k = Some a \<longrightarrow> ?g1 k = Some a \<or> a < length (heap st')"
    and u2: "\<forall>k. k \<notin> node_id ` set ns \<longrightarrow> gvn' k = ?g1 k"
    and t2: "trace st' = trace st1 @ cs2" and c2: "\<forall>x y. AddEdge x y \<notin> set cs2"
    by blast
  have "forEach (nodes_forEach_body ext) (n # ns) (gvn, st) = Done (gvn', st')"
    using b f by simp
  moreover have "length (heap st') = length (heap st) + length (n # ns)"
    using l1 l2 by simp
  moreover have "dom gvn' = dom gvn \<union> node_id ` set (n # ns)"
    using d2 by auto
  moreover have "\<forall>k a. gvn' k = Some a \<longrightarrow> gvn k = Some a \<or> a < length (heap st')"
  proof (intro allI impI)
    fix k a assume "gvn' k = Some a"
    with v2 have "?g1 k = Some a \<or> a < length (heap st')" by blast
    then show "gvn k = Some a \<or> a < length (heap st')"
      using l1 l2 by (auto split: if_splits)
  qed
  moreover have "\<forall>k. k \<notin> node_id ` set (n # ns) \<longrightarrow> gvn' k = gvn k"
    using u2 by auto
  moreover have "\<exists>cs. trace st' = trace st @ cs \<and> (\<forall>x y. AddEdge x y \<notin> set cs)"
    using t1 t2 c1 c2 by (intro exI [of _ "cs1 @ cs2"]) simp
  ultimately show ?case by blast
qed

lemma nodes_loop_address:
  assumes "distinct (map node_id ns)"
    and "forEach (nodes_forEach_body ext) ns (gvn, st) = Done (gvn', st')"
    and "i < length ns"
  shows "gvn' (node_id (ns ! i)) = Some (length (heap st) + i)"
  using assms
proof (induction ns arbitrary: gvn st i)
  case Nil
  then show ?case by simp
next
  case (Cons n ns)
  from nodes_forEach_body_Done [of ext n gvn st] obtain st1 where
    b: "nodes_forEach_body ext n (gvn, st) = Done (gvn(node_id n \<mapsto> length (heap st)), st1)"
    and l1: "length (heap st1) = Suc (length (heap st))"
    by blast
  let ?g1 = "gvn(node_id n \<mapsto> length (heap st))"
  from Cons.prems(2) b have f: "forEach (nodes_forEach_body ext) ns (?g1, st1) = Done (gvn', st')"
    by simp
  show ?case
  proof (cases i)
    case 0
    from nodes_loop [of ext ns ?g1 st1] f
    have "\<forall>k. k \<notin> node_id ` set ns \<longrightarrow> gvn' k = ?g1 k" by simp
    moreover from Cons.prems(1) have "node_id n \<notin> node_id ` set ns" by simp
    ultimately show ?thesis using 0 by simp
  next
    case (Suc j)
    with Cons.prems have "distinct (map node_id ns)" "j < length ns" by simp_all
    from Cons.IH [OF this(1) f this(2)] l1 Suc show ?thesis by simp
  qed
qed

lemma edges_forEach_body_trace:
  "heap (final (edges_forEach_body ext gvn e st)) = heap st \<and>
   (\<exists>cs. trace (final (edges_forEach_body ext gvn e st)) =
            trace st @ AddEdge (gvn (edge_from e)) (gvn (edge_to e)) # cs \<and>
          (\<forall>x y. AddEdge x y \<notin> set cs))"
  by (simp add: edges_forEach_body_def drawEdge_def Let_def split: option.split)

lemma edges_loop:
  "heap (final (forEach (edges_forEach_body ext gvn) es st)) = heap st \<and>
   (\<exists>cs. trace (final (forEach (edges_forEach_body ext gvn) es st)) = trace st @ cs \<and>
          (\<forall>x y. AddEdge x y \<in> set cs \<longrightarrow>
             (\<exists>e \<in> set es. x = gvn (edge_from e) \<and> y = gvn (edge_to e))) \<and>
          (es \<noteq> [] \<longrightarrow> AddEdge (gvn (edge_from (hd es))) (gvn (edge_to (hd es))) \<in> set cs))"
proof (induction es arbitrary: st)
  case Nil
  show ?case by simp
next
  case (Cons e es)
  let ?r = "edges_forEach_body ext gvn e st"
  let ?c = "AddEdge (gvn (edge_from e)) (gvn (edge_to e))"
  from edges_forEach_body_trace [of ext gvn e st] obtain cs1 where
    h1: "heap (final ?r) = heap st" and t1: "trace (final ?r) = trace st @ ?c # cs1"
    and c1: "\<forall>x y. AddEdge x y \<notin> set cs1"
    by blast
  show ?case
  proof (cases ?r)
    case (Threw err s)
    with h1 t1 c1 show ?thesis
      by (intro conjI exI [of _ "?c # cs1"]) auto
  next
    case (Done s)
    from Cons.IH [of s] obtain cs2 where
      h2: "heap (final (forEach (edges_forEach_body ext gvn) es s)) = heap s"
      and t2: "trace (final (forEach (edges_forEach_body ext gvn) es s)) = trace s @ cs2"
      and c2: "\<forall>x y. AddEdge x y \<in> set cs2 \<longrightarrow>
             (\<exists>e \<in> set es. x = gvn (edge_from e) \<and> y = gvn (edge_to e))"
      by blast
    from Done h1 t1 h2 t2 c1 c2 show ?thesis
      by (intro conjI exI [of _ "?c # cs1 @ cs2"]) auto
  qed
qed

lemma start_layout_frame:
  "heap (start_layout ext st) = heap st" "trace (start_layout ext st) = trace st"
  by (simp_all add: start_layout_def Let_def)

text \<open>The calls that \<^verbatim>\<open>createGraph\<close> adds to the trace, and the addresses it allocates.\<close>

lemma createGraph_of_calls:
  "\<exists>gvn cs. trace (final (createGraph_of ext b st)) = trace st @ cs \<and>
     length (heap (final (createGraph_of ext b st))) = length (heap st) + length (nodes b) \<and>
     dom gvn = node_id ` set (nodes b) \<and>
     (\<forall>k a. gvn k = Some a \<longrightarrow> a < length (heap (final (createGraph_of ext b st)))) \<and>
     (distinct (map node_id (nodes b)) \<longrightarrow>
        (\<forall>i < length (nodes b). gvn (node_id (nodes b ! i)) = Some (length (heap st) + i))) \<and>
     (\<forall>x y. AddEdge x y \<in> set cs \<longrightarrow>
        (\<exists>e \<in> set (edges b). x = gvn (edge_from e) \<and> y = gvn (edge_to e))) \<and>
     (edges b \<noteq> [] \<longrightarrow>
        AddEdge (gvn (edge_from (hd (edges b)))) (gvn (edge_to (hd (edges b)))) \<in> set cs)"
proof -
  from nodes_loop [of ext "nodes b" Map.empty st] obtain gvn st1 cs1 where
    n: "nodes_forEach ext (nodes b) st = Done (gvn, st1)"
    and l1: "length (heap st1) = length (heap st) + length (nodes b)"
    and d1: "dom gvn = node_id ` set (nodes b)"
    and v1: "\<forall>k a. gvn k = Some a \<longrightarrow> a < length (heap st1)"
    and t1: "trace st1 = trace st @ cs1" and c1: "\<forall>x y. AddEdge x y \<notin> set cs1"
    unfolding nodes_forEach_def by auto
  have a1: "distinct (map node_id (nodes b)) \<longrightarrow>
        (\<forall>i < length (nodes b). gvn (node_id (nodes b ! i)) = Some (length (heap st) + i))"
    using n nodes_loop_address [of "nodes b" ext Map.empty st gvn st1]
    unfolding nodes_forEach_def by blast
  let ?r = "forEach (edges_forEach_body ext gvn) (edges b) st1"
  from edges_loop [of ext gvn "edges b" st1] obtain cs2 where
    h2: "heap (final ?r) = heap st1" and t2: "trace (final ?r) = trace st1 @ cs2"
    and c2: "\<forall>x y. AddEdge x y \<in> set cs2 \<longrightarrow>
             (\<exists>e \<in> set (edges b). x = gvn (edge_from e) \<and> y = gvn (edge_to e))"
    and f2: "edges b \<noteq> [] \<longrightarrow>
        AddEdge (gvn (edge_from (hd (edges b)))) (gvn (edge_to (hd (edges b)))) \<in> set cs2"
    by blast
  have fin: "heap (final (createGraph_of ext b st)) = heap (final ?r) \<and>
             trace (final (createGraph_of ext b st)) = trace (final ?r)"
    using n by (cases ?r) (simp_all add: createGraph_of_def start_layout_frame)
  have "trace (final (createGraph_of ext b st)) = trace st @ (cs1 @ cs2)"
    using fin t1 t2 by simp
  moreover have "length (heap (final (createGraph_of ext b st))) = length (heap st) + length (nodes b)"
    using fin h2 l1 by simp
  moreover have "\<forall>k a. gvn k = Some a \<longrightarrow> a < length (heap (final (createGraph_of ext b st)))"
    using fin h2 v1 by simp
  moreover have "\<forall>x y. AddEdge x y \<in> set (cs1 @ cs2) \<longrightarrow>
        (\<exists>e \<in> set (edges b). x = gvn (edge_from e) \<and> y = gvn (edge_to e))"
    using c1 c2 by auto
  moreover have "edges b \<noteq> [] \<longrightarrow>
        AddEdge (gvn (edge_from (hd (edges b)))) (gvn (edge_to (hd (edges b)))) \<in> set (cs1 @ cs2)"
    using f2 by simp
  ultimately show ?thesis using d1 a1 by blast
qed

subsection \<open>Edges of the dataset meet nodes that were stored\<close>

lemma edge_endpoints:
  assumes "\<forall>t \<in> set (tracks b). \<forall>g \<in> set (tag_list t). g \<in> set (bucket_tags b)"
    and "e \<in> set (edges b)"
  shows "edge_from e \<in> node_id ` set (nodes b)" and "edge_to e \<in> node_id ` set (nodes b)"
proof -
  from assms(2) obtain t g where t: "t \<in> set (tracks b)" and g: "g \<in> set (tag_list t)"
    and e: "e = \<lparr>edge_from = track_node_id t, edge_to = ''C'' @ g\<rparr>"
    unfolding set_edges by blast
  from g have "tag_list t \<noteq> []" by auto
  with t have "\<lparr>node_id = track_node_id t, node_label = [], node_group = ''tracks''\<rparr> \<in> set (nodes b)"
    unfolding set_nodes by blast
  then show "edge_from e \<in> node_id ` set (nodes b)" using e by force
  from assms(1) t g have "tag_node g \<in> set (nodes b)"
    unfolding set_nodes by blast
  then show "edge_to e \<in> node_id ` set (nodes b)" using e by force
qed

lemma bucket_node_ids_distinct: "distinct (map node_id (nodes bucket))"
proof -
  have "distinct (map trackId (filter (\<lambda>t. tag_list t \<noteq> []) (tracks bucket)))"
    using bucket_trackIds_distinct by (rule distinct_map_filter)
  then show ?thesis using bucket_tags_distinct by (rule distinct_node_ids)
qed

lemma createGraph_of_defined_endpoints:
  assumes "\<forall>t \<in> set (tracks b). \<forall>g \<in> set (tag_list t). g \<in> set (bucket_tags b)"
    and "AddEdge x y \<in> set (drop (length (trace st)) (trace (final (createGraph_of ext b st))))"
  shows "\<exists>a c. x = Some a \<and> y = Some c \<and>
           a < length (heap (final (createGraph_of ext b st))) \<and>
           c < length (heap (final (createGraph_of ext b st)))"
proof -
  from createGraph_of_calls [of ext b st] obtain gvn cs where
    t: "trace (final (createGraph_of ext b st)) = trace st @ cs"
    and d: "dom gvn = node_id ` set (nodes b)"
    and v: "\<forall>k a. gvn k = Some a \<longrightarrow> a < length (heap (final (createGraph_of ext b st)))"
    and c: "\<forall>x y. AddEdge x y \<in> set cs \<longrightarrow>
        (\<exists>e \<in> set (edges b). x = gvn (edge_from e) \<and> y = gvn (edge_to e))"
    by blast
  from assms(2) t have "AddEdge x y \<in> set cs" by simp
  with c obtain e where e: "e \<in> set (edges b)" and x: "x = gvn (edge_from e)"
    and y: "y = gvn (edge_to e)"
    by blast
  from edge_endpoints [OF assms(1) e] d
  have "edge_from e \<in> dom gvn" and "edge_to e \<in> dom gvn" by simp_all
  then obtain a c where "gvn (edge_from e) = Some a" and "gvn (edge_to e) = Some c" by blast
  with v x y show ?thesis by blast
qed

lemma createGraph_of_first_call:
  assumes "distinct (map node_id (nodes b))" and "edges b \<noteq> []"
    and "i < length (nodes b)" and "node_id (nodes b ! i) = edge_from (hd (edges b))"
    and "j < length (nodes b)" and "node_id (nodes b ! j) = edge_to (hd (edges b))"
  shows "AddEdge (Some (length (heap st) + i)) (Some (length (heap st) + j)) \<in>
           set (drop (length (trace st)) (trace (final (createGraph_of ext b st))))"
proof -
  from createGraph_of_calls [of ext b st] obtain gvn cs where
    t: "trace (final (createGraph_of ext b st)) = trace st @ cs"
    and a: "distinct (map node_id (nodes b)) \<longrightarrow>
        (\<forall>i < length (nodes b). gvn (node_id (nodes b ! i)) = Some (length (heap st) + i))"
    and f: "edges b \<noteq> [] \<longrightarrow>
        AddEdge (gvn (edge_from (hd (edges b)))) (gvn (edge_to (hd (edges b)))) \<in> set cs"
    by blast
  from a assms(1,3,5) have "gvn (node_id (nodes b ! i)) = Some (length (heap st) + i)"
    and "gvn (node_id (nodes b ! j)) = Some (length (heap st) + j)"
    by simp_all
  with f assms(2,4,6) t show ?thesis by simp
qed

text \<open>
  C10. In the dataset every tag of a track's tag list is among \<^verbatim>\<open>bucket.tags\<close>. So, from any
  state and with any collaborators, each call of \<^verbatim>\<open>graph.addEdge\<close> that \<^verbatim>\<open>createGraph\<close> makes
  has two defined arguments, both addresses of node objects in the store.
\<close>

theorem C10_addEdge_endpoints_defined:
  "(\<forall>t \<in> set (tracks bucket). \<forall>tag \<in> set (tag_list t). tag \<in> set (bucket_tags bucket)) \<and>
   (\<forall>x y. AddEdge x y \<in> set (drop (length (trace st)) (trace (final (createGraph ext st)))) \<longrightarrow>
      (\<exists>a c. x = Some a \<and> y = Some c \<and>
         a < length (heap (final (createGraph ext st))) \<and>
         c < length (heap (final (createGraph ext st)))))"
  using bucket_tag_lists_known createGraph_of_defined_endpoints [OF bucket_tag_lists_known, of _ _ st ext]
  unfolding createGraph_def by blast

theorem C10_addEdge_endpoints_defined_witness:
  "''hiphopbeat'' \<in> set (bucket_tags bucket) \<and>
   AddEdge (Some 0) (Some 58) \<in>
     set (drop (length (trace (init demo (initial_state demo [] None))))
            (trace (final (createGraph demo (init demo (initial_state demo [] None)))))) \<and>
   58 < length (heap (final (createGraph demo (init demo (initial_state demo [] None)))))"
proof -
  let ?s = "init demo (initial_state demo [] None)"
  let ?t = "\<lparr>trackId = 344049175,
             tags = Some [''electronic'', ''ambient'', ''experimental'', ''hiphopbeat''],
             track_note = None\<rparr>"
  have t: "?t \<in> set (tracks bucket)" by code_simp
  have g: "''hiphopbeat'' \<in> set (tag_list ?t)" by (simp add: tag_list_def)
  have h: "heap ?s = []" by (simp add: init_def initial_state_def Let_def)
  have str: "number_to_string 344049175 = ''344049175''" by code_simp
  have hd: "hd (edges bucket) = \<lparr>edge_from = ''T344049175'', edge_to = ''Celectronic''\<rparr>"
    by (simp add: edges_eq bucket_def edges_of_track_def tag_list_def track_node_id_def str)
  from t g have "\<lparr>edge_from = track_node_id ?t, edge_to = ''C'' @ ''hiphopbeat''\<rparr> \<in> set (edges bucket)"
    unfolding set_edges by blast
  then have e: "edges bucket \<noteq> []" by auto
  from hd have f: "edge_from (hd (edges bucket)) = ''T344049175''"
    "edge_to (hd (edges bucket)) = ''Celectronic''"
    by simp_all
  have n: "node_id (nodes bucket ! 0) = ''T344049175''" "node_id (nodes bucket ! 58) = ''Celectronic''"
    by (simp_all add: nodes_eq bucket_def nodes_of_track_def tag_list_def track_node_id_def str
        tag_node_def)
  note l = bucket_nodes_length
  from createGraph_of_first_call [OF bucket_node_ids_distinct e, of 0 58 ?s demo] f n l h
  have m: "AddEdge (Some 0) (Some 58) \<in>
     set (drop (length (trace ?s)) (trace (final (createGraph demo ?s))))"
    by (simp add: createGraph_def)
  from C10_addEdge_endpoints_defined [of ?s demo, THEN conjunct2, rule_format, OF m]
  have "58 < length (heap (final (createGraph demo ?s)))" by simp
  moreover from C10_addEdge_endpoints_defined [of ?s demo, THEN conjunct1, THEN bspec, OF t, THEN bspec, OF g]
  have "''hiphopbeat'' \<in> set (bucket_tags bucket)" .
  ultimately show ?thesis using m by simp
qed

subsection \<open>The construction with the container that enforces a limit\<close>

text \<open>One round of the node loop, for any collaborator, by what it leaves in the state.\<close>

lemma nodes_forEach_body_effect:
  fixes st :: "'g state" and ext :: "'g collaborators" and n :: node
  defines "r \<equiv> addNode ext (graph st) (length (heap st)) (make_node n)"
  shows "\<exists>st'. nodes_forEach_body ext n (gvn, st) = Done (gvn(node_id n \<mapsto> length (heap st)), st') \<and>
     graph st' = snd r \<and>
     map gnode_id (heap st') = map gnode_id (heap st) @ [node_id n] \<and>
     map (\<lambda>nd. data_draw_object nd \<noteq> None) (heap st') =
       map (\<lambda>nd. data_draw_object nd \<noteq> None) (heap st) @ [fst r] \<and>
     that st' = that st \<and> body st' = body st \<and> info_text st' = info_text st \<and>
     object_selection st' = object_selection st \<and> stats st' = stats st"
proof (cases "fst r")
  case True
  then show ?thesis
    unfolding r_def
    by (simp add: nodes_forEach_body_def drawNode_def lookup_def modify_def Let_def
        make_node_def new_Node_def nth_append list_update_append)
next
  case False
  then show ?thesis
    unfolding r_def
    by (simp add: nodes_forEach_body_def Let_def make_node_def new_Node_def)
qed

lemma demo_sel [simp]:
  "addNode demo = demo_addNode" "addEdge demo = demo_addEdge"
  "graph_nodes demo = dg_nodes" "graph_edges demo = dg_edges"
  "layout_init demo g = g" "layout_generate demo g = g\<lparr>dg_remaining := dg_remaining g - 1\<rparr>"
  "layout_finished demo g = (dg_remaining g \<le> 0)"
  "new_ForceDirected demo g lo =
     g\<lparr>dg_remaining := (case lo_iterations lo of None \<Rightarrow> 0 | Some n \<Rightarrow> n)\<rparr>"
  "new_Graph demo l = \<lparr>dg_limit = l, dg_nodes = [], dg_ids = [], dg_edges = [], dg_remaining = 0\<rparr>"
  by (simp_all add: demo_def)

lemma demo_addNode_frame:
  "dg_limit (snd (demo_addNode g a nd)) = dg_limit g"
  "dg_edges (snd (demo_addNode g a nd)) = dg_edges g"
  by (simp_all add: demo_addNode_def)

lemma demo_addEdge_frame:
  "dg_limit (snd (demo_addEdge g x y)) = dg_limit g"
  "dg_nodes (snd (demo_addEdge g x y)) = dg_nodes g"
  "dg_ids (snd (demo_addEdge g x y)) = dg_ids g"
  by (simp_all add: demo_addEdge_def split: option.split)

text \<open>Whether the container accepts the next node, when the invariant holds.\<close>

lemma demo_addNode_inv:
  assumes "dg_nodes g = [0..<m]" and "dg_ids g = take m ids" and "m = demo_capacity g (length ids)"
    and "i \<notin> set ids" and "gnode_id nd = i"
  shows "fst (demo_addNode g a nd) = (demo_capacity g (Suc (length ids)) = Suc (length ids))"
    and "demo_capacity g (Suc (length ids)) = (if fst (demo_addNode g a nd) then Suc m else m)"
    and "dg_nodes (snd (demo_addNode g a nd)) =
           (if fst (demo_addNode g a nd) then dg_nodes g @ [a] else dg_nodes g)"
    and "dg_ids (snd (demo_addNode g a nd)) =
           (if fst (demo_addNode g a nd) then dg_ids g @ [i] else dg_ids g)"
proof -
  from assms(2,4) have fresh: "i \<notin> set (dg_ids g)"
    by (auto dest: in_set_takeD)
  have reached: "demo_reached_limit g = (case dg_limit g of None \<Rightarrow> False | Some l \<Rightarrow> nat l \<le> length ids)"
    using assms(1,3)
    by (auto simp: demo_reached_limit_def demo_capacity_def split: option.split)
  from fresh assms(5) have acc: "fst (demo_addNode g a nd) = (\<not> demo_reached_limit g)"
    by (simp add: demo_addNode_def)
  show "fst (demo_addNode g a nd) = (demo_capacity g (Suc (length ids)) = Suc (length ids))"
    unfolding acc reached by (auto simp: demo_capacity_def split: option.split)
  show "demo_capacity g (Suc (length ids)) = (if fst (demo_addNode g a nd) then Suc m else m)"
    unfolding acc reached using assms(3) by (auto simp: demo_capacity_def split: option.split)
  show "dg_nodes (snd (demo_addNode g a nd)) =
           (if fst (demo_addNode g a nd) then dg_nodes g @ [a] else dg_nodes g)"
    and "dg_ids (snd (demo_addNode g a nd)) =
           (if fst (demo_addNode g a nd) then dg_ids g @ [i] else dg_ids g)"
    using assms(5) by (simp_all add: demo_addNode_def)
qed

lemma demo_inv_node:
  assumes inv: "demo_inv st" and fresh: "node_id n \<notin> gnode_id ` set (heap st)"
    and b: "nodes_forEach_body demo n (gvn, st) = Done (gvn', st')"
  shows "demo_inv st'"
proof -
  let ?ids = "map gnode_id (heap st)"
  let ?a = "length (heap st)"
  let ?m = "demo_capacity (graph st) ?a"
  let ?r = "demo_addNode (graph st) ?a (make_node n)"
  from nodes_forEach_body_effect [of demo n gvn st] b
  have g: "graph st' = snd ?r"
    and ids: "map gnode_id (heap st') = ?ids @ [node_id n]"
    and fl: "map (\<lambda>nd. data_draw_object nd \<noteq> None) (heap st') =
       map (\<lambda>nd. data_draw_object nd \<noteq> None) (heap st) @ [fst ?r]"
    by auto
  from ids have len: "length (heap st') = Suc ?a"
    by (metis length_append_singleton length_map)
  from inv have n0: "dg_nodes (graph st) = [0..<?m]" and i0: "dg_ids (graph st) = take ?m ?ids"
    and d0: "distinct ?ids"
    and f0: "map (\<lambda>nd. data_draw_object nd \<noteq> None) (heap st) =
        replicate ?m True @ replicate (?a - ?m) False"
    by (simp_all add: demo_inv_def Let_def)
  have m: "?m = demo_capacity (graph st) (length ?ids)" by simp
  from fresh have fr: "node_id n \<notin> set ?ids" by simp
  note an = demo_addNode_inv [OF n0 i0 m fr gnode_id_make_node, of ?a]
  have mle: "?m \<le> ?a" by (simp add: demo_capacity_def split: option.split)
  have cap: "demo_capacity (graph st') (Suc ?a) = (if fst ?r then Suc ?m else ?m)"
    using an(2) g by (simp add: demo_capacity_def demo_addNode_frame)
  show ?thesis
  proof (cases "fst ?r")
    case True
    with an(1) have full: "?m = ?a"
      using mle by (auto simp: demo_capacity_def split: option.splits)
    from True an(3) n0 full g have "dg_nodes (graph st') = [0..<Suc ?m]" by simp
    moreover from True an(4) i0 full g ids have "dg_ids (graph st') = take (Suc ?m) (map gnode_id (heap st'))"
      by simp
    moreover from d0 fr ids have "distinct (map gnode_id (heap st'))" by simp
    moreover from True fl f0 full
    have "map (\<lambda>nd. data_draw_object nd \<noteq> None) (heap st') =
        replicate (Suc ?m) True @ replicate (Suc ?a - Suc ?m) False"
      by (simp add: replicate_append_same)
    ultimately show ?thesis
      using True cap len by (simp add: demo_inv_def Let_def)
  next
    case False
    from False an(3) n0 g have "dg_nodes (graph st') = [0..<?m]" by simp
    moreover from False an(4) i0 g ids mle have "dg_ids (graph st') = take ?m (map gnode_id (heap st'))"
      by simp
    moreover from d0 fr ids have "distinct (map gnode_id (heap st'))" by simp
    moreover from False fl f0 mle
    have "map (\<lambda>nd. data_draw_object nd \<noteq> None) (heap st') =
        replicate ?m True @ replicate (Suc ?a - ?m) False"
      by (simp add: Suc_diff_le replicate_append_same)
    ultimately show ?thesis
      using False cap len by (simp add: demo_inv_def Let_def)
  qed
qed

lemma demo_nodes_loop:
  assumes "demo_inv st" and "distinct (map node_id ns)"
    and "node_id ` set ns \<inter> gnode_id ` set (heap st) = {}"
    and "forEach (nodes_forEach_body demo) ns (gvn, st) = Done (gvn', st')"
  shows "demo_inv st' \<and> dg_limit (graph st') = dg_limit (graph st) \<and>
         dg_edges (graph st') = dg_edges (graph st) \<and> that st' = that st \<and>
         body st' = body st \<and> info_text st' = info_text st \<and>
         object_selection st' = object_selection st \<and> stats st' = stats st"
  using assms
proof (induction ns arbitrary: gvn st)
  case Nil
  then show ?case by simp
next
  case (Cons n ns)
  from nodes_forEach_body_effect [of demo n gvn st] obtain st1 where
    b: "nodes_forEach_body demo n (gvn, st) = Done (gvn(node_id n \<mapsto> length (heap st)), st1)"
    and g: "graph st1 = snd (addNode demo (graph st) (length (heap st)) (make_node n))"
    and ids: "map gnode_id (heap st1) = map gnode_id (heap st) @ [node_id n]"
    and fr: "that st1 = that st" "body st1 = body st" "info_text st1 = info_text st"
      "object_selection st1 = object_selection st" "stats st1 = stats st"
    by blast
  from Cons.prems(3) have "node_id n \<notin> gnode_id ` set (heap st)" by auto
  from demo_inv_node [OF Cons.prems(1) this b] have i1: "demo_inv st1" .
  have "set (map gnode_id (heap st1)) = set (map gnode_id (heap st) @ [node_id n])"
    by (simp only: ids)
  then have "gnode_id ` set (heap st1) = insert (node_id n) (gnode_id ` set (heap st))"
    by simp
  with Cons.prems(2,3) have d1: "node_id ` set ns \<inter> gnode_id ` set (heap st1) = {}"
    by auto
  from Cons.prems(2) have d2: "distinct (map node_id ns)" by simp
  from Cons.prems(4) b
  have f: "forEach (nodes_forEach_body demo) ns (gvn(node_id n \<mapsto> length (heap st)), st1) = Done (gvn', st')"
    by simp
  from Cons.IH [OF i1 d2 d1 f]
  have "demo_inv st'" and "dg_limit (graph st') = dg_limit (graph st1)"
    and "dg_edges (graph st') = dg_edges (graph st1)" and "that st' = that st1"
    and "body st' = body st1" and "info_text st' = info_text st1"
    and "object_selection st' = object_selection st1" and "stats st' = stats st1"
    by blast+
  moreover have "dg_limit (graph st1) = dg_limit (graph st)" "dg_edges (graph st1) = dg_edges (graph st)"
    unfolding g by (simp_all add: demo_addNode_frame)
  ultimately show ?case using fr by simp
qed

text \<open>One round of the edge loop, for any collaborator.\<close>

lemma edges_forEach_body_frame:
  "heap (final (edges_forEach_body ext gvn e st)) = heap st"
  "graph (final (edges_forEach_body ext gvn e st)) =
     snd (addEdge ext (graph st) (gvn (edge_from e)) (gvn (edge_to e)))"
  "that (final (edges_forEach_body ext gvn e st)) = that st"
  "body (final (edges_forEach_body ext gvn e st)) = body st"
  "info_text (final (edges_forEach_body ext gvn e st)) = info_text st"
  "object_selection (final (edges_forEach_body ext gvn e st)) = object_selection st"
  "stats (final (edges_forEach_body ext gvn e st)) = stats st"
  by (simp_all add: edges_forEach_body_def drawEdge_def Let_def split: option.split)

lemma draw_object_position_Some:
  "has_draw_object h a \<Longrightarrow> draw_object_position h (Some a) = Some a"
  by (auto simp: has_draw_object_def draw_object_position_def split: option.splits)

lemma draw_object_position_None:
  "\<not> has_draw_object h a \<Longrightarrow> draw_object_position h (Some a) = None"
  by (auto simp: has_draw_object_def draw_object_position_def split: option.splits)

lemma edges_forEach_body_completes:
  assumes "gvn (edge_from e) = Some a" and "gvn (edge_to e) = Some c"
    and "has_draw_object (heap st) a" and "has_draw_object (heap st) c"
  shows "completes (edges_forEach_body ext gvn e st)"
  using assms
  by (simp add: edges_forEach_body_def drawEdge_def Let_def draw_object_position_Some)

lemma edges_forEach_body_throws:
  assumes "gvn (edge_from e) = Some a" and "gvn (edge_to e) = Some c"
    and "fst (addEdge ext (graph st) (Some a) (Some c))"
    and "\<not> has_draw_object (heap st) c"
  shows "edges_forEach_body ext gvn e st =
           Threw TypeError
             (st\<lparr>graph := snd (addEdge ext (graph st) (Some a) (Some c)),
                 trace := trace st @ [AddEdge (Some a) (Some c), DrawEdge (Some a) (Some c)]\<rparr>)"
  using assms
  by (simp add: edges_forEach_body_def drawEdge_def Let_def draw_object_position_None
      split: option.split)

lemma edges_loop_completes:
  assumes "\<forall>e \<in> set es. \<exists>a c. gvn (edge_from e) = Some a \<and> gvn (edge_to e) = Some c \<and>
             has_draw_object (heap st) a \<and> has_draw_object (heap st) c"
  shows "completes (forEach (edges_forEach_body ext gvn) es st)"
proof -
  let ?I = "\<lambda>s :: 'a state. heap s = heap st"
  have "completes (forEach (edges_forEach_body ext gvn) es st) \<and>
        ?I (final (forEach (edges_forEach_body ext gvn) es st))"
  proof (rule forEach_completes [where I = ?I])
    fix e and s :: "'a state"
    assume e: "e \<in> set es" and s: "heap s = heap st"
    from assms e obtain a c where "gvn (edge_from e) = Some a" "gvn (edge_to e) = Some c"
      "has_draw_object (heap st) a" "has_draw_object (heap st) c"
      by blast
    with s show "completes (edges_forEach_body ext gvn e s) \<and>
                 heap (final (edges_forEach_body ext gvn e s)) = heap st"
      by (simp add: edges_forEach_body_completes edges_forEach_body_frame)
  qed simp
  then show ?thesis by simp
qed

lemma demo_edges_loop_frame:
  "demo_inv (final (forEach (edges_forEach_body demo gvn) es st)) = demo_inv st \<and>
   dg_limit (graph (final (forEach (edges_forEach_body demo gvn) es st))) = dg_limit (graph st) \<and>
   that (final (forEach (edges_forEach_body demo gvn) es st)) = that st \<and>
   body (final (forEach (edges_forEach_body demo gvn) es st)) = body st \<and>
   info_text (final (forEach (edges_forEach_body demo gvn) es st)) = info_text st \<and>
   object_selection (final (forEach (edges_forEach_body demo gvn) es st)) = object_selection st \<and>
   stats (final (forEach (edges_forEach_body demo gvn) es st)) = stats st"
proof -
  let ?proj = "\<lambda>s :: demo_graph state.
     (heap s, dg_limit (graph s), dg_nodes (graph s), dg_ids (graph s), that s, body s,
      info_text s, object_selection s, stats s)"
  have "?proj (final (forEach (edges_forEach_body demo gvn) es st)) = ?proj st"
    by (rule forEach_inv) (simp add: edges_forEach_body_frame demo_addEdge_frame)
  then show ?thesis
    by (simp add: demo_inv_def demo_capacity_def Let_def)
qed

lemma demo_inv_has_draw_object:
  assumes "demo_inv st"
  shows "has_draw_object (heap st) a = (a < demo_capacity (graph st) (length (heap st)))"
proof -
  let ?m = "demo_capacity (graph st) (length (heap st))"
  from assms have f: "map (\<lambda>nd. data_draw_object nd \<noteq> None) (heap st) =
        replicate ?m True @ replicate (length (heap st) - ?m) False"
    by (simp add: demo_inv_def Let_def)
  have mle: "?m \<le> length (heap st)" by (simp add: demo_capacity_def split: option.split)
  show ?thesis
  proof (cases "a < length (heap st)")
    case True
    then have "(data_draw_object (heap st ! a) \<noteq> None) =
               (map (\<lambda>nd. data_draw_object nd \<noteq> None) (heap st) ! a)"
      by simp
    also have "\<dots> = (a < ?m)"
      unfolding f using True mle by (simp add: nth_append)
    finally show ?thesis using True by (simp add: has_draw_object_def lookup_def)
  next
    case False
    with mle show ?thesis by (simp add: has_draw_object_def lookup_def)
  qed
qed

lemma nodes_loop_ids:
  assumes "forEach (nodes_forEach_body ext) ns (gvn, st) = Done (gvn', st')"
  shows "map gnode_id (heap st') = map gnode_id (heap st) @ map node_id ns"
  using assms
proof (induction ns arbitrary: gvn st)
  case Nil
  then show ?case by simp
next
  case (Cons n ns)
  from nodes_forEach_body_effect [of ext n gvn st] obtain st1 where
    b: "nodes_forEach_body ext n (gvn, st) = Done (gvn(node_id n \<mapsto> length (heap st)), st1)"
    and ids: "map gnode_id (heap st1) = map gnode_id (heap st) @ [node_id n]"
    by blast
  from Cons.prems b
  have "forEach (nodes_forEach_body ext) ns (gvn(node_id n \<mapsto> length (heap st)), st1) = Done (gvn', st')"
    by simp
  from Cons.IH [OF this] ids show ?case by simp
qed

text \<open>
  The node loop of \<^verbatim>\<open>createGraph\<close> with the container \<open>demo\<close>, started on an empty store.
\<close>

lemma demo_node_phase:
  assumes "demo_inv st" and "heap st = []" and "distinct (map node_id ns)"
  shows "\<exists>gvn st1. nodes_forEach demo ns st = Done (gvn, st1) \<and> demo_inv st1 \<and>
     map gnode_id (heap st1) = map node_id ns \<and>
     dom gvn = node_id ` set ns \<and>
     (\<forall>k a. gvn k = Some a \<longrightarrow> a < length ns) \<and>
     (\<forall>i < length ns. gvn (node_id (ns ! i)) = Some i) \<and>
     dg_limit (graph st1) = dg_limit (graph st) \<and> dg_edges (graph st1) = dg_edges (graph st) \<and>
     that st1 = that st \<and> body st1 = body st \<and> info_text st1 = info_text st \<and>
     object_selection st1 = object_selection st \<and> stats st1 = stats st"
proof -
  from nodes_loop [of demo ns Map.empty st] obtain gvn st1 where
    n: "forEach (nodes_forEach_body demo) ns (Map.empty, st) = Done (gvn, st1)"
    and l: "length (heap st1) = length (heap st) + length ns"
    and d: "dom gvn = dom (Map.empty :: string \<rightharpoonup> addr) \<union> node_id ` set ns"
    and v: "\<forall>k a. gvn k = Some a \<longrightarrow> (Map.empty :: string \<rightharpoonup> addr) k = Some a \<or> a < length (heap st1)"
    by blast
  from assms(2) have dj: "node_id ` set ns \<inter> gnode_id ` set (heap st) = {}" by simp
  note dl = demo_nodes_loop [OF assms(1,3) dj n]
  from nodes_loop_ids [OF n] assms(2) have ids: "map gnode_id (heap st1) = map node_id ns" by simp
  from nodes_loop_address [OF assms(3) n] assms(2)
  have a: "\<forall>i < length ns. gvn (node_id (ns ! i)) = Some i" by simp
  from l v assms(2) have v': "\<forall>k a. gvn k = Some a \<longrightarrow> a < length ns" by simp
  from d have d': "dom gvn = node_id ` set ns" by simp
  from n have "nodes_forEach demo ns st = Done (gvn, st1)" by (simp add: nodes_forEach_def)
  with dl ids d' v' a show ?thesis by blast
qed

lemma limited_start_fields:
  "heap limited_start = []" "demo_inv limited_start"
  "dg_limit (graph limited_start) = Some 10" "dg_edges (graph limited_start) = []"
  "limit (that limited_start) = 10" "trace limited_start = []"
  by (simp_all add: limited_start_def init_def initial_state_def Let_def demo_inv_def
      demo_capacity_def SimpleGraph_Graph_options_def SimpleGraph_this_def or_number_def
      no_options_def)

lemma bucket_first_edge:
  "edges bucket =
     \<lparr>edge_from = ''T344049175'', edge_to = ''Celectronic''\<rparr> # tl (edges bucket)"
proof -
  have str: "number_to_string 344049175 = ''344049175''" by code_simp
  show ?thesis
    by (simp add: edges_eq bucket_def edges_of_track_def tag_list_def track_node_id_def str)
qed

lemma bucket_node_positions:
  "node_id (nodes bucket ! 0) = ''T344049175''" "node_id (nodes bucket ! 58) = ''Celectronic''"
proof -
  have str: "number_to_string 344049175 = ''344049175''" by code_simp
  show "node_id (nodes bucket ! 0) = ''T344049175''" "node_id (nodes bucket ! 58) = ''Celectronic''"
    by (simp_all add: nodes_eq bucket_def nodes_of_track_def tag_list_def track_node_id_def str
        tag_node_def)
qed

text \<open>
  C6. With the option \<^verbatim>\<open>limit: 10\<close> and a container that enforces the limit, \<^verbatim>\<open>addNode\<close>
  returns a falsy value from the eleventh node on. Those nodes are not drawn, as the claim
  says, but line 197 still stores them in \<^verbatim>\<open>graphVisNodes\<close>. The first edge of the dataset
  ends in such a node (\<^verbatim>\<open>Celectronic\<close>, the 59th): \<^verbatim>\<open>addEdge\<close> accepts the edge, \<^verbatim>\<open>drawEdge\<close>
  reads the position of a \<^verbatim>\<open>draw_object\<close> that is \<^verbatim>\<open>undefined\<close>, and \<^verbatim>\<open>createGraph\<close> ends with a
  \<^verbatim>\<open>TypeError\<close>: the rejected addition is not dropped silently.
\<close>

theorem C6_rejected_node_throws:
  "limit (that limited_start) = 10 \<and>
   \<not> completes (createGraph demo limited_start) \<and>
   graph_nodes demo (graph (final (createGraph demo limited_start))) = [0..<10] \<and>
   map gnode_id (heap (final (createGraph demo limited_start))) ! 58 = ''Celectronic'' \<and>
   \<not> has_draw_object (heap (final (createGraph demo limited_start))) 58 \<and>
   last (trace (final (createGraph demo limited_start))) = DrawEdge (Some 0) (Some 58)"
proof -
  let ?e = "\<lparr>edge_from = ''T344049175'', edge_to = ''Celectronic''\<rparr>"
  from demo_node_phase [OF limited_start_fields(2,1) bucket_node_ids_distinct]
  obtain gvn st1 where n: "nodes_forEach demo (nodes bucket) limited_start = Done (gvn, st1)"
    and inv: "demo_inv st1" and ids: "map gnode_id (heap st1) = map node_id (nodes bucket)"
    and a: "\<forall>i < length (nodes bucket). gvn (node_id (nodes bucket ! i)) = Some i"
    and lim: "dg_limit (graph st1) = dg_limit (graph limited_start)"
    and ed: "dg_edges (graph st1) = dg_edges (graph limited_start)"
    by blast
  have "length (heap st1) = length (map gnode_id (heap st1))" by simp
  also have "\<dots> = 71" unfolding ids by (simp add: bucket_nodes_length)
  finally have len: "length (heap st1) = 71" .
  from lim have cap: "demo_capacity (graph st1) (length (heap st1)) = 10"
    by (simp add: demo_capacity_def limited_start_fields len)
  have "0 < length (nodes bucket)" and "58 < length (nodes bucket)"
    by (simp_all add: bucket_nodes_length)
  with a have "gvn (node_id (nodes bucket ! 0)) = Some 0"
    and "gvn (node_id (nodes bucket ! 58)) = Some 58"
    by blast+
  then have g0: "gvn (edge_from ?e) = Some 0" and g58: "gvn (edge_to ?e) = Some 58"
    by (simp_all add: bucket_node_positions)
  have nd: "\<not> has_draw_object (heap st1) 58"
    by (simp add: demo_inv_has_draw_object [OF inv] cap)
  from ed have acc: "fst (addEdge demo (graph st1) (Some 0) (Some 58))"
    by (simp add: demo_addEdge_def limited_start_fields)
  let ?st2 = "st1\<lparr>graph := snd (addEdge demo (graph st1) (Some 0) (Some 58)),
                 trace := trace st1 @ [AddEdge (Some 0) (Some 58), DrawEdge (Some 0) (Some 58)]\<rparr>"
  from edges_forEach_body_throws [OF g0 g58 acc nd]
  have "edges_forEach_body demo gvn ?e st1 = Threw TypeError ?st2" .
  then have "forEach (edges_forEach_body demo gvn) (edges bucket) st1 = Threw TypeError ?st2"
    by (subst bucket_first_edge) simp
  with n have r: "createGraph demo limited_start = Threw TypeError ?st2"
    by (simp add: createGraph_def createGraph_of_def)
  from inv cap have "dg_nodes (graph st1) = [0..<10]"
    by (simp add: demo_inv_def Let_def)
  then have gn: "graph_nodes demo (graph ?st2) = [0..<10]"
    by (simp add: demo_addEdge_frame)
  have "map gnode_id (heap st1) ! 58 = node_id (nodes bucket ! 58)"
    unfolding ids by (simp add: bucket_nodes_length)
  then have id58: "map gnode_id (heap ?st2) ! 58 = ''Celectronic''"
    by (simp add: bucket_node_positions)
  from nd have nd2: "\<not> has_draw_object (heap ?st2) 58" by simp
  have lt: "last (trace ?st2) = DrawEdge (Some 0) (Some 58)" by simp
  show ?thesis
    unfolding r final.simps completes.simps
    using gn id58 nd2 lt limited_start_fields(5) by blast
qed

subsection \<open>What a frame writes into the document\<close>

lemma animate_Done_body:
  assumes si: "show_info (that st)" and k: "getElementById (body st) ''graph-info'' = Some k"
    and an: "animate ext inp st = Done st'"
  shows "body st' =
           (body st)[k := (body st ! k)\<lparr>innerHTML := hyphen_joined (map snd (info_text st'))\<rparr>]"
proof -
  let ?st0 = "st\<lparr>trace := trace st @ [ControlsUpdate]\<rparr>"
  from an obtain st1 st2 where
    r1: "(case change inp of None \<Rightarrow> Done ?st0 | Some sel \<Rightarrow> render ext sel ?st0) = Done st1"
    and r2: "render ext (picked inp) st1 = Done st2"
    and r3: "(if show_info (that st2) then printInfo st2 else Done st2) = Done st'"
    unfolding animate_def Let_def by (blast dest: and_then_Done)
  from r1 have s1: "that st1 = that st \<and> body st1 = body st"
    by (cases "change inp") (auto dest: render_Done_frame)
  with render_Done_frame [OF r2] have s2: "that st2 = that st" "body st2 = body st" by simp_all
  with si r3 have p: "printInfo st2 = Done st'" by simp
  from k s2 have k2: "getElementById (body st2) ''graph-info'' = Some k" by simp
  from printInfo_Some [OF k2] p s2 show ?thesis by auto
qed

lemma printInfo_info_text: "info_text (final (printInfo st)) = info_text st"
  by (simp add: printInfo_def Let_def split: option.split)

lemma animate_nodes_property:
  "get_property (info_text (final (animate ext inp st))) ''nodes'' =
     get_property (info_text st) ''nodes''"
proof -
  let ?proj = "\<lambda>s :: 'a state. get_property (info_text s) ''nodes''"
  let ?st0 = "st\<lparr>trace := trace st @ [ControlsUpdate]\<rparr>"
  have last: "\<And>s. ?proj (final (if show_info (that s) then printInfo s else Done s)) = ?proj s"
    by (simp add: printInfo_info_text)
  have second: "\<And>s. ?proj
        (final (and_then (render ext (picked inp) s)
                  (\<lambda>st2. if show_info (that st2) then printInfo st2 else Done st2))) = ?proj s"
    by (subst final_and_then_inv [where proj = ?proj, OF last]) (rule render_nodes_property)
  have first: "?proj
        (final (case change inp of None \<Rightarrow> Done ?st0 | Some sel \<Rightarrow> render ext sel ?st0)) = ?proj st"
    by (cases "change inp") (simp_all add: render_nodes_property)
  show ?thesis
    unfolding animate_def Let_def
    by (subst final_and_then_inv [where proj = ?proj, OF second]) (rule first)
qed

lemma hyphen_joined_nonempty:
  assumes "get_property ps k = Some v" and "v \<noteq> []"
  shows "hyphen_joined (map snd ps) \<noteq> []"
proof -
  from assms(1) have "(k, v) \<in> set ps" by (simp add: get_property_def map_of_SomeD)
  then have "v \<in> set (map snd ps)" by force
  with assms(2) have "filter (\<lambda>v. v \<noteq> []) (map snd ps) \<noteq> []"
    by (auto simp: filter_empty_conv)
  then show ?thesis by (simp add: hyphen_joined_eq_Nil)
qed

lemma getElementById_first:
  "getElementById es i = Some k \<Longrightarrow> j < k \<Longrightarrow> elem_id (es ! j) \<noteq> Some i"
proof (induction es arbitrary: k j)
  case Nil
  then show ?case by simp
next
  case (Cons e es)
  then show ?case by (cases j) (auto split: if_splits)
qed

text \<open>
  C8. With the \<^verbatim>\<open>showInfo\<close> option set, \<^verbatim>\<open>init\<close> appends a \<^verbatim>\<open>div\<close> with id \<^verbatim>\<open>graph-info\<close> to
  the body. \<^verbatim>\<open>printInfo\<close> sets the \<^verbatim>\<open>innerHTML\<close> of the first element of the document with that
  id, which is the new element when no other element has the id, to the values of
  \<^verbatim>\<open>info_text\<close>, in order, with \<^verbatim>\<open> - \<close> between consecutive non-empty values and nothing for
  empty ones. A frame of \<^verbatim>\<open>animate\<close> that completes leaves that element with that content and
  changes no other. A frame completes, and the next one will, when every node of the graph
  is a drawn node object, the layout's \<^verbatim>\<open>generate\<close> keeps the node list, and the selection and
  stats objects exist whenever their flags are set.
\<close>

theorem C8_info_box:
  "(opt_showInfo opts = Some True \<longrightarrow>
      last (body (init ext (initial_state ext document (Some opts)))) =
        \<lparr>elem_tag = ''div'', elem_id = Some ''graph-info'', innerHTML = []\<rparr> \<and>
      getElementById (body (init ext (initial_state ext document (Some opts)))) ''graph-info'' \<noteq> None \<and>
      ((\<forall>e \<in> set (document @ [stats_domElement ext]). elem_id e \<noteq> Some ''graph-info'') \<longrightarrow>
         getElementById (body (init ext (initial_state ext document (Some opts)))) ''graph-info'' =
           Some (length (body (init ext (initial_state ext document (Some opts)))) - 1))) \<and>
   (getElementById (body st) ''graph-info'' = Some k \<longrightarrow>
      k < length (body st) \<and> elem_id (body st ! k) = Some ''graph-info'' \<and>
      (\<forall>j < k. elem_id (body st ! j) \<noteq> Some ''graph-info'') \<and>
      printInfo st =
        Done (st\<lparr>body := (body st)[k := (body st ! k)\<lparr>innerHTML := hyphen_joined (map snd (info_text st))\<rparr>]\<rparr>)) \<and>
   (show_info (that st) \<longrightarrow> getElementById (body st) ''graph-info'' = Some k \<longrightarrow>
    animate ext inp st = Done st' \<longrightarrow>
      body st' =
        (body st)[k := (body st ! k)\<lparr>innerHTML := hyphen_joined (map snd (info_text st'))\<rparr>]) \<and>
   ((\<forall>g. graph_nodes ext (layout_generate ext g) = graph_nodes ext g) \<longrightarrow>
    all_drawn ext st \<longrightarrow> overlays_ready st \<longrightarrow> show_info (that st) \<longrightarrow>
    getElementById (body st) ''graph-info'' = Some k \<longrightarrow>
      completes (animate ext inp st) \<and> all_drawn ext (final (animate ext inp st)) \<and>
      overlays_ready (final (animate ext inp st)))"
proof (intro conjI impI allI)
  let ?b = "body (init ext (initial_state ext document (Some opts)))"
  assume "opt_showInfo opts = Some True"
  then have b: "?b = (document @ [\<lparr>elem_tag = ''canvas'', elem_id = None, innerHTML = []\<rparr>] @
       (if show_stats (SimpleGraph_this opts) then [stats_domElement ext] else [])) @
       [\<lparr>elem_tag = ''div'', elem_id = Some ''graph-info'', innerHTML = []\<rparr>]"
    by (simp add: init_body initial_state_fields show_info_this)
  show "last ?b = \<lparr>elem_tag = ''div'', elem_id = Some ''graph-info'', innerHTML = []\<rparr>"
    by (subst b) simp
  show "getElementById ?b ''graph-info'' \<noteq> None"
    by (subst b) (rule getElementById_snoc_defined, simp)
  assume "\<forall>e \<in> set (document @ [stats_domElement ext]). elem_id e \<noteq> Some ''graph-info''"
  then have "\<forall>e \<in> set (document @ [\<lparr>elem_tag = ''canvas'', elem_id = None, innerHTML = []\<rparr>] @
       (if show_stats (SimpleGraph_this opts) then [stats_domElement ext] else [])).
       elem_id e \<noteq> Some ''graph-info''"
    by auto
  from getElementById_append_fresh [OF this, of "\<lparr>elem_tag = ''div'', elem_id = Some ''graph-info'', innerHTML = []\<rparr>"]
  show "getElementById ?b ''graph-info'' = Some (length ?b - 1)"
    by (subst (1 2) b) simp
next
  assume k: "getElementById (body st) ''graph-info'' = Some k"
  from getElementById_Some [OF k]
  show "k < length (body st)" and "elem_id (body st ! k) = Some ''graph-info''" by simp_all
  from printInfo_Some [OF k]
  show "printInfo st =
        Done (st\<lparr>body := (body st)[k := (body st ! k)\<lparr>innerHTML := hyphen_joined (map snd (info_text st))\<rparr>]\<rparr>)" .
next
  fix j assume "getElementById (body st) ''graph-info'' = Some k" and "j < k"
  then show "elem_id (body st ! j) \<noteq> Some ''graph-info''" by (rule getElementById_first)
next
  assume "show_info (that st)" and "getElementById (body st) ''graph-info'' = Some k"
    and "animate ext inp st = Done st'"
  then show "body st' =
        (body st)[k := (body st ! k)\<lparr>innerHTML := hyphen_joined (map snd (info_text st'))\<rparr>]"
    by (rule animate_Done_body)
next
  assume "\<forall>g. graph_nodes ext (layout_generate ext g) = graph_nodes ext g"
    and "all_drawn ext st" and "overlays_ready st"
    and "getElementById (body st) ''graph-info'' = Some k"
  then have "completes (animate ext inp st) \<and> all_drawn ext (final (animate ext inp st)) \<and>
      overlays_ready (final (animate ext inp st))"
    by (intro animate_completes) simp_all
  then show "completes (animate ext inp st)" and "all_drawn ext (final (animate ext inp st))"
    and "overlays_ready (final (animate ext inp st))"
    by simp_all
qed

lemma completes_Done: "completes r \<Longrightarrow> r = Done (final r)"
  by (cases r) simp_all

theorem C8_info_box_witness:
  "opt_showInfo sample_options = Some True \<and>
   last (body (init demo (initial_state demo [] (Some sample_options)))) =
     \<lparr>elem_tag = ''div'', elem_id = Some ''graph-info'', innerHTML = []\<rparr> \<and>
   getElementById (body (init demo (initial_state demo [] (Some sample_options)))) ''graph-info'' = Some 1 \<and>
   show_info (that sample_state) \<and> all_drawn demo sample_state \<and> overlays_ready sample_state \<and>
   getElementById (body sample_state) ''graph-info'' = Some 1 \<and>
   completes (animate demo \<lparr>change = None, picked = []\<rparr> sample_state) \<and>
   innerHTML (body (final (animate demo \<lparr>change = None, picked = []\<rparr> sample_state)) ! 1) =
     ''Nodes 3 - Edges 2 - '' @ calculating \<and>
   innerHTML (body (final (printInfo sample_state)) ! 1) = ''Nodes 3 - Edges 2''"
proof -
  let ?inp = "\<lparr>change = None, picked = []\<rparr>"
  let ?r = "animate demo ?inp sample_state"
  have o: "opt_showInfo sample_options = Some True" by (simp add: sample_options_def)
  have d: "\<forall>e \<in> set ([] @ [stats_domElement demo]). elem_id e \<noteq> Some ''graph-info''"
    by (simp add: demo_def)
  have l: "length (body (init demo (initial_state demo [] (Some sample_options)))) = 2"
    by code_simp
  have s: "show_info (that sample_state)"
    and k: "getElementById (body sample_state) ''graph-info'' = Some 1"
    and a: "all_drawn demo sample_state"
    and v: "overlays_ready sample_state"
    and h: "hyphen_joined (map snd (info_text (final ?r))) = ''Nodes 3 - Edges 2 - '' @ calculating"
    and h': "hyphen_joined (map snd (info_text sample_state)) = ''Nodes 3 - Edges 2''"
    and b: "length (body sample_state) = 2"
    by code_simp+
  have n: "\<forall>g. graph_nodes demo (layout_generate demo g) = graph_nodes demo g"
    by (simp add: demo_def)
  note t = C8_info_box [of sample_options demo "[]" sample_state 1 ?inp "final ?r"]
  from t n a v s k have c: "completes ?r" by simp
  from t o d l have "last (body (init demo (initial_state demo [] (Some sample_options)))) =
     \<lparr>elem_tag = ''div'', elem_id = Some ''graph-info'', innerHTML = []\<rparr> \<and>
   getElementById (body (init demo (initial_state demo [] (Some sample_options)))) ''graph-info'' = Some 1"
    by simp
  moreover from t s k completes_Done [OF c] h b
  have "innerHTML (body (final ?r) ! 1) = ''Nodes 3 - Edges 2 - '' @ calculating"
    by simp
  moreover from t k h' b
  have "innerHTML (body (final (printInfo sample_state)) ! 1) = ''Nodes 3 - Edges 2''"
    by simp
  ultimately show ?thesis using o s k c a v by simp
qed

subsection \<open>A document that already has an element with the id of the info box\<close>

lemma start_layout_demo_frame:
  "heap (start_layout demo st) = heap st" "body (start_layout demo st) = body st"
  "object_selection (start_layout demo st) = object_selection st"
  "stats (start_layout demo st) = stats st"
  "dg_nodes (graph (start_layout demo st)) = dg_nodes (graph st)"
  "show_info (that (start_layout demo st)) = show_info (that st)"
  "selection (that (start_layout demo st)) = selection (that st)"
  "show_stats (that (start_layout demo st)) = show_stats (that st)"
  "get_property (info_text (start_layout demo st)) ''nodes'' =
     Some (''Nodes '' @ number_to_string (int (length (dg_nodes (graph st)))))"
  by (simp_all add: start_layout_def Let_def)

text \<open>With no limit, the container accepts and the program draws every node of the dataset.\<close>

lemma demo_createGraph_unlimited:
  assumes "demo_inv st" and "heap st = []" and "dg_limit (graph st) = None"
  shows "\<exists>st'. createGraph demo st = Done st' \<and> all_drawn demo st' \<and> body st' = body st \<and>
     show_info (that st') = show_info (that st) \<and> selection (that st') = selection (that st) \<and>
     show_stats (that st') = show_stats (that st) \<and>
     object_selection st' = object_selection st \<and> stats st' = stats st \<and>
     get_property (info_text st') ''nodes'' = Some ''Nodes 71''"
proof -
  from demo_node_phase [OF assms(1,2) bucket_node_ids_distinct]
  obtain gvn st1 where n: "nodes_forEach demo (nodes bucket) st = Done (gvn, st1)"
    and inv: "demo_inv st1" and ids: "map gnode_id (heap st1) = map node_id (nodes bucket)"
    and dom: "dom gvn = node_id ` set (nodes bucket)"
    and v: "\<forall>k a. gvn k = Some a \<longrightarrow> a < length (nodes bucket)"
    and lim: "dg_limit (graph st1) = dg_limit (graph st)"
    and fr1: "that st1 = that st" "body st1 = body st" "object_selection st1 = object_selection st"
      "stats st1 = stats st"
    by blast
  have "length (heap st1) = length (map gnode_id (heap st1))" by simp
  also have "\<dots> = 71" unfolding ids by (simp add: bucket_nodes_length)
  finally have len: "length (heap st1) = 71" .
  from lim assms(3) have cap: "demo_capacity (graph st1) (length (heap st1)) = 71"
    by (simp add: demo_capacity_def len)
  have drawn: "\<And>a. a < 71 \<Longrightarrow> has_draw_object (heap st1) a"
    by (simp add: demo_inv_has_draw_object [OF inv] cap)
  have "\<forall>e \<in> set (edges bucket). \<exists>a c. gvn (edge_from e) = Some a \<and> gvn (edge_to e) = Some c \<and>
             has_draw_object (heap st1) a \<and> has_draw_object (heap st1) c"
  proof
    fix e assume e: "e \<in> set (edges bucket)"
    from edge_endpoints [OF bucket_tag_lists_known e] dom
    have "edge_from e \<in> dom gvn" and "edge_to e \<in> dom gvn" by simp_all
    then obtain a c where g: "gvn (edge_from e) = Some a" "gvn (edge_to e) = Some c" by blast
    with v have "a < 71" "c < 71" by (auto simp: bucket_nodes_length)
    with g drawn show "\<exists>a c. gvn (edge_from e) = Some a \<and> gvn (edge_to e) = Some c \<and>
             has_draw_object (heap st1) a \<and> has_draw_object (heap st1) c"
      by blast
  qed
  from edges_loop_completes [OF this, of demo]
  obtain st2 where e: "forEach (edges_forEach_body demo gvn) (edges bucket) st1 = Done st2"
    by (cases "forEach (edges_forEach_body demo gvn) (edges bucket) st1") simp_all
  from demo_edges_loop_frame [of gvn "edges bucket" st1] e inv
  have inv2: "demo_inv st2" and lim2: "dg_limit (graph st2) = dg_limit (graph st1)"
    and fr2: "that st2 = that st1" "body st2 = body st1"
      "object_selection st2 = object_selection st1" "stats st2 = stats st1"
    by simp_all
  have h2: "heap st2 = heap st1"
    using edges_loop [of demo gvn "edges bucket" st1] e by simp
  from lim2 lim assms(3) have cap2: "demo_capacity (graph st2) (length (heap st2)) = 71"
    by (simp add: demo_capacity_def len h2)
  from inv2 cap2 have nodes2: "dg_nodes (graph st2) = [0..<71]"
    by (simp add: demo_inv_def Let_def)
  have r: "createGraph demo st = Done (start_layout demo st2)"
    using n e by (simp add: createGraph_def createGraph_of_def)
  have "list_all (has_draw_object (heap st2)) [0..<71]"
    using drawn h2 by (simp add: list_all_iff)
  then have ad: "all_drawn demo (start_layout demo st2)"
    by (simp add: all_drawn_def start_layout_demo_frame nodes2)
  have str: "number_to_string 71 = ''71''" by code_simp
  have np: "get_property (info_text (start_layout demo st2)) ''nodes'' = Some ''Nodes 71''"
    by (simp add: start_layout_demo_frame(9) nodes2 str)
  from r ad np fr1 fr2 show ?thesis
    by (simp add: start_layout_demo_frame)
qed

lemma crowded_start_fields:
  "heap (init demo (initial_state demo crowded_document (Some (no_options\<lparr>opt_showInfo := Some True\<rparr>)))) = []"
  "demo_inv (init demo (initial_state demo crowded_document (Some (no_options\<lparr>opt_showInfo := Some True\<rparr>))))"
  "dg_limit (graph (init demo (initial_state demo crowded_document (Some (no_options\<lparr>opt_showInfo := Some True\<rparr>))))) = None"
  "show_info (that (init demo (initial_state demo crowded_document (Some (no_options\<lparr>opt_showInfo := Some True\<rparr>)))))"
  "\<not> selection (that (init demo (initial_state demo crowded_document (Some (no_options\<lparr>opt_showInfo := Some True\<rparr>)))))"
  "\<not> show_stats (that (init demo (initial_state demo crowded_document (Some (no_options\<lparr>opt_showInfo := Some True\<rparr>)))))"
  "body (init demo (initial_state demo crowded_document (Some (no_options\<lparr>opt_showInfo := Some True\<rparr>)))) =
     [\<lparr>elem_tag = ''div'', elem_id = Some ''graph-info'', innerHTML = []\<rparr>,
      \<lparr>elem_tag = ''canvas'', elem_id = None, innerHTML = []\<rparr>,
      \<lparr>elem_tag = ''div'', elem_id = Some ''graph-info'', innerHTML = []\<rparr>]"
  by (simp_all add: init_def initial_state_def Let_def demo_inv_def demo_capacity_def
      SimpleGraph_Graph_options_def SimpleGraph_this_def or_number_def or_bool_def or_string_def
      no_options_def crowded_document_def)

text \<open>
  The claim C8 as it was stated fails in this document: the constructor and its first
  frame complete, \<^verbatim>\<open>printInfo\<close> writes the joined values, which are not empty, into the element
  that was there before, and the element that \<^verbatim>\<open>init\<close> created, the last of the body,
  stays empty.
\<close>

theorem C8_info_box_counterexample:
  "completes crowded_run \<and>
   length (body (final crowded_run)) = 3 \<and>
   last (body (final crowded_run)) =
     \<lparr>elem_tag = ''div'', elem_id = Some ''graph-info'', innerHTML = []\<rparr> \<and>
   get_property (info_text (final crowded_run)) ''nodes'' = Some ''Nodes 71'' \<and>
   innerHTML (body (final crowded_run) ! 0) =
     hyphen_joined (map snd (info_text (final crowded_run))) \<and>
   innerHTML (last (body (final crowded_run))) \<noteq>
     hyphen_joined (map snd (info_text (final crowded_run)))"
proof -
  let ?s = "init demo (initial_state demo crowded_document (Some (no_options\<lparr>opt_showInfo := Some True\<rparr>)))"
  let ?inp = "\<lparr>change = None, picked = []\<rparr>"
  let ?div = "\<lparr>elem_tag = ''div'', elem_id = Some ''graph-info'', innerHTML = []\<rparr>"
  let ?canvas = "\<lparr>elem_tag = ''canvas'', elem_id = None, innerHTML = []\<rparr>"
  from demo_createGraph_unlimited [OF crowded_start_fields(2,1,3)]
  obtain st' where c: "createGraph demo ?s = Done st'" and ad: "all_drawn demo st'"
    and b: "body st' = [?div, ?canvas, ?div]"
    and si: "show_info (that st')" and ns: "\<not> selection (that st')"
    and nt: "\<not> show_stats (that st')"
    and np: "get_property (info_text st') ''nodes'' = Some ''Nodes 71''"
    using crowded_start_fields(4-7) by auto
  have run: "crowded_run = animate demo ?inp st'"
    by (simp add: crowded_run_def SimpleGraph_def c)
  have gen: "\<forall>g. graph_nodes demo (layout_generate demo g) = graph_nodes demo g" by simp
  from ns nt have ov: "overlays_ready st'" by (simp add: overlays_ready_def)
  from b have k: "getElementById (body st') ''graph-info'' = Some 0" by simp
  then have k': "show_info (that st') \<longrightarrow> getElementById (body st') ''graph-info'' \<noteq> None" by simp
  from animate_completes [OF gen ad ov k', of ?inp]
  have comp: "completes (animate demo ?inp st')" by simp
  then have d: "animate demo ?inp st' = Done (final (animate demo ?inp st'))"
    by (rule completes_Done)
  let ?f = "final (animate demo ?inp st')"
  let ?str = "hyphen_joined (map snd (info_text ?f))"
  from animate_Done_body [OF si k d] b
  have body: "body ?f = [?div\<lparr>innerHTML := ?str\<rparr>, ?canvas, ?div]" by simp
  from animate_nodes_property [of demo ?inp st'] np
  have np': "get_property (info_text ?f) ''nodes'' = Some ''Nodes 71''" by simp
  then have ne: "?str \<noteq> []" by (rule hyphen_joined_nonempty) simp
  from comp body np' ne show ?thesis
    unfolding run by simp
qed

end
